theory Spec2Isabelle
  imports Main "HOL-Library.Sublist" "HOL-Library.AList" "HOL-Library.Code_Target_Nat"
begin

section \<open>JavaScript strings\<close>

text \<open>
  The build script \<^verbatim>\<open>blog:build\<close> (the second document of
  \<^verbatim>\<open>src/public-site/src/pages/HomePage.tsx\<close>) works on JavaScript strings,
  which are sequences of UTF-16 code units. A code unit is modelled by its number, a
  string by the list of its code units. \<open>js\<close> turns an ASCII literal into such a list;
  characters that cannot be written in a literal are given by number
  (10 line feed, 13 carriage return, 92 backslash, 96 backtick, 36 dollar,
  8226 the bullet).
\<close>

type_synonym jstring = "nat list"

definition js :: "string \<Rightarrow> jstring" where
  "js = map of_char"

text \<open>ECMAScript's LineTerminator: what \<^verbatim>\<open>.\<close> does not match and where
  \<^verbatim>\<open>^\<close> and \<^verbatim>\<open>$\<close> anchor under the \<^verbatim>\<open>m\<close> flag.\<close>

definition isLineTerminator :: "nat \<Rightarrow> bool" where
  "isLineTerminator c = (c = 10 \<or> c = 13 \<or> c = 8232 \<or> c = 8233)"

text \<open>ECMAScript's WhiteSpace and LineTerminator: what \<^verbatim>\<open>String.prototype.trim\<close>
  strips.\<close>

definition isWhiteSpace :: "nat \<Rightarrow> bool" where
  "isWhiteSpace c =
     (c = 9 \<or> c = 10 \<or> c = 11 \<or> c = 12 \<or> c = 13 \<or> c = 32 \<or> c = 160 \<or> c = 5760
      \<or> (8192 \<le> c \<and> c \<le> 8202) \<or> c = 8232 \<or> c = 8233 \<or> c = 8239 \<or> c = 8287
      \<or> c = 12288 \<or> c = 65279)"

definition trim :: "jstring \<Rightarrow> jstring" where
  "trim s = rev (dropWhile isWhiteSpace (rev (dropWhile isWhiteSpace s)))"

text \<open>\<^verbatim>\<open>s.startsWith(p)\<close>.\<close>

fun startsWith :: "jstring \<Rightarrow> jstring \<Rightarrow> bool" where
  "startsWith s [] = True"
| "startsWith [] (p # ps) = False"
| "startsWith (c # cs) (p # ps) = (if c = p then startsWith cs ps else False)"

definition endsWith :: "jstring \<Rightarrow> jstring \<Rightarrow> bool" where
  "endsWith s p = (length p \<le> length s \<and> drop (length s - length p) s = p)"

text \<open>\<^verbatim>\<open>s.includes(p)\<close>: \<open>p\<close> occurs in \<open>s\<close> as a contiguous substring.\<close>

fun includesStr :: "jstring \<Rightarrow> jstring \<Rightarrow> bool" where
  "includesStr [] p = (p = [])"
| "includesStr (c # cs) p = (if startsWith (c # cs) p then True else includesStr cs p)"

text \<open>\<^verbatim>\<open>s.split(sep)\<close> for a one-character separator: never empty.\<close>

fun splitOn :: "nat \<Rightarrow> jstring \<Rightarrow> jstring list" where
  "splitOn sep [] = [[]]"
| "splitOn sep (c # cs) =
     (if c = sep then [] # splitOn sep cs
      else (case splitOn sep cs of
              [] \<Rightarrow> [[c]]
            | l # ls \<Rightarrow> (c # l) # ls))"

text \<open>\<^verbatim>\<open>xs.join(sep)\<close>.\<close>

fun joinWith :: "jstring \<Rightarrow> jstring list \<Rightarrow> jstring" where
  "joinWith sep [] = []"
| "joinWith sep [x] = x"
| "joinWith sep (x # y # ys) = x @ sep @ joinWith sep (y # ys)"

section \<open>Regular-expression passes\<close>

text \<open>
  \<^verbatim>\<open>str.replace(/^PREFIX(.*$)/gm, 'OPEN$1CLOSE')\<close>: under the \<^verbatim>\<open>m\<close> flag
  \<^verbatim>\<open>^\<close> anchors at the start of the text and after every line terminator, and
  \<^verbatim>\<open>.*$\<close> runs to the next line terminator or to the end. So the text is cut at its
  line terminators, and every piece that starts with the prefix is rewritten.
  \<open>mapLinesFrom\<close> walks the text with the current piece (reversed) in \<open>acc\<close>.
\<close>

fun mapLinesFrom :: "(jstring \<Rightarrow> jstring) \<Rightarrow> jstring \<Rightarrow> jstring \<Rightarrow> jstring" where
  "mapLinesFrom f acc [] = f (rev acc)"
| "mapLinesFrom f acc (c # cs) =
     (if isLineTerminator c then f (rev acc) @ c # mapLinesFrom f [] cs
      else mapLinesFrom f (c # acc) cs)"

definition mapLines :: "(jstring \<Rightarrow> jstring) \<Rightarrow> jstring \<Rightarrow> jstring" where
  "mapLines f s = mapLinesFrom f [] s"

definition wrapLine :: "jstring \<Rightarrow> jstring \<Rightarrow> jstring \<Rightarrow> jstring \<Rightarrow> jstring" where
  "wrapLine p opn cls l = (if startsWith l p then opn @ drop (length p) l @ cls else l)"

definition replaceLinePrefix :: "jstring \<Rightarrow> jstring \<Rightarrow> jstring \<Rightarrow> jstring \<Rightarrow> jstring" where
  "replaceLinePrefix p opn cls s = mapLines (wrapLine p opn cls) s"

text \<open>
  \<^verbatim>\<open>str.replace(/.../g, ...)\<close> for a pattern that is not anchored: the text is
  scanned from the left; where the pattern matches, the match is replaced and the scan
  goes on behind it, elsewhere one character is copied. \<open>m\<close> is the pattern: on a text
  it gives the replacement of the match that starts at the head of the text and what is
  left behind that match. No pattern of the script matches the empty string, so what is
  left is always shorter (lemmas \<open>..._shorter\<close> below); the test on the lengths is what
  makes the recursion terminate for every \<open>m\<close>.
\<close>

fun replaceAll :: "(jstring \<Rightarrow> (jstring \<times> jstring) option) \<Rightarrow> jstring \<Rightarrow> jstring" where
  "replaceAll m [] = []"
| "replaceAll m (c # cs) =
     (case m (c # cs) of
        None \<Rightarrow> c # replaceAll m cs
      | Some (r, rest) \<Rightarrow>
          if length rest < length (c # cs) then r @ replaceAll m rest
          else c # replaceAll m cs)"

text \<open>
  \<open>splitAtFirst stop p s\<close>: the lazy \<^verbatim>\<open>.*?\<close> followed by the literal \<open>p\<close>. It looks
  for the first place where \<open>p\<close> stands, giving the text before it and the text behind
  it, and gives up at a character the dot does not match (\<open>stop\<close>).
\<close>

fun splitAtFirst :: "(nat \<Rightarrow> bool) \<Rightarrow> jstring \<Rightarrow> jstring \<Rightarrow> (jstring \<times> jstring) option" where
  "splitAtFirst stop p [] = (if p = [] then Some ([], []) else None)"
| "splitAtFirst stop p (c # cs) =
     (if startsWith (c # cs) p then Some ([], drop (length p) (c # cs))
      else if stop c then None
      else map_option (\<lambda>(b, a). (c # b, a)) (splitAtFirst stop p cs))"

text \<open>\<^verbatim>\<open>/D(.*?)D/\<close> with replacement \<^verbatim>\<open>OPEN$1CLOSE\<close>, for a delimiter \<open>D\<close>
  (the dot stops at line terminators: no \<^verbatim>\<open>s\<close> flag).\<close>

definition matchDelimited ::
  "jstring \<Rightarrow> jstring \<Rightarrow> jstring \<Rightarrow> jstring \<Rightarrow> (jstring \<times> jstring) option" where
  "matchDelimited d opn cls s =
     (if startsWith s d then
        (case splitAtFirst isLineTerminator d (drop (length d) s) of
           None \<Rightarrow> None
         | Some (inner, rest) \<Rightarrow> Some (opn @ inner @ cls, rest))
      else None)"

text \<open>A literal pattern, as in \<^verbatim>\<open>/<p class="text-gray-600 my-4"><\/p>/g\<close>.\<close>

definition matchLiteral :: "jstring \<Rightarrow> jstring \<Rightarrow> jstring \<Rightarrow> (jstring \<times> jstring) option" where
  "matchLiteral lit r s = (if startsWith s lit then Some (r, drop (length lit) s) else None)"

section \<open>Frontmatter parser\<close>

text \<open>
  An error thrown by the script: the \<^verbatim>\<open>Error('Invalid frontmatter format')\<close> of
  \<^verbatim>\<open>parseFrontmatter\<close>, a \<^verbatim>\<open>TypeError\<close> of the runtime (a method called on a
  value that does not have it), or a failed file-system call.
\<close>

datatype error = FormatError | TypeError | EnvironmentError

text \<open>
  \<^verbatim>\<open>const frontmatter: Record<string, unknown> = {}\<close>: the parser stores strings and
  arrays of strings under string keys. The object is modelled by its list of entries;
  an assignment replaces the entry of the key or adds one.
\<close>

datatype fmval = Scalar jstring | Items "jstring list"

type_synonym frontmatter = "(jstring \<times> fmval) list"

definition setField :: "jstring \<Rightarrow> fmval \<Rightarrow> frontmatter \<Rightarrow> frontmatter" where
  "setField key v fm = AList.update key v fm"

definition getField :: "frontmatter \<Rightarrow> jstring \<Rightarrow> fmval option" where
  "getField fm key = map_of fm key"

text \<open>\<^verbatim>\<open>line.indexOf(':')\<close>, with \<open>None\<close> for \<^verbatim>\<open>-1\<close>.\<close>

fun indexOf :: "nat \<Rightarrow> jstring \<Rightarrow> nat option" where
  "indexOf c [] = None"
| "indexOf c (x # xs) = (if x = c then Some 0 else map_option Suc (indexOf c xs))"

text \<open>The variables of the parsing loop.\<close>

record parser =
  parsed :: frontmatter
  currentKey :: jstring
  inArray :: bool
  arrayItems :: "jstring list"

text \<open>
  One round of \<^verbatim>\<open>for (const line of lines)\<close>:
  \<^verbatim>\<open>
    const trimmedLine = line.trim()
    if (!trimmedLine) continue
    if (trimmedLine.startsWith('- ') && inArray) {
      arrayItems.push(trimmedLine.slice(2).trim())
      continue
    }
    if (inArray && !trimmedLine.startsWith('- ')) {
      frontmatter[currentKey] = arrayItems
      inArray = false
      arrayItems = []
    }
    const colonIndex = line.indexOf(':')
    if (colonIndex > 0) {
      const key = line.slice(0, colonIndex).trim()
      const value = line.slice(colonIndex + 1).trim()
      if (value === '') { currentKey = key; inArray = true; arrayItems = [] }
      else { frontmatter[key] = value }
    }
  \<close>
  58 is the colon.
\<close>

definition saveArray :: "parser \<Rightarrow> parser" where
  "saveArray st =
     st\<lparr>parsed := setField (currentKey st) (Items (arrayItems st)) (parsed st),
        inArray := False, arrayItems := []\<rparr>"

definition parseKeyValue :: "parser \<Rightarrow> jstring \<Rightarrow> parser" where
  "parseKeyValue st line =
     (case indexOf 58 line of
        None \<Rightarrow> st
      | Some colonIndex \<Rightarrow>
          if colonIndex > 0 then
            (let key = trim (take colonIndex line);
                 val = trim (drop (colonIndex + 1) line)
             in if val = [] then st\<lparr>currentKey := key, inArray := True, arrayItems := []\<rparr>
                else st\<lparr>parsed := setField key (Scalar val) (parsed st)\<rparr>)
          else st)"

definition parseLine :: "parser \<Rightarrow> jstring \<Rightarrow> parser" where
  "parseLine st line =
     (let trimmedLine = trim line in
      if trimmedLine = [] then st
      else if startsWith trimmedLine (js ''- '') \<and> inArray st then
        st\<lparr>arrayItems := arrayItems st @ [trim (drop 2 trimmedLine)]\<rparr>
      else if inArray st \<and> \<not> startsWith trimmedLine (js ''- '') then
        parseKeyValue (saveArray st) line
      else parseKeyValue st line)"

text \<open>
  \<^verbatim>\<open>const frontmatterRegex = /^---\n([\s\S]*?)\n---\n([\s\S]*)$/\<close>: without the
  \<^verbatim>\<open>m\<close> flag the anchors are the two ends of the text; the text must start with the
  opening delimiter line, the first group is the shortest text that is followed by the
  closing delimiter line, the second group is all the rest.
\<close>

definition FM_OPEN :: jstring where
  "FM_OPEN = js ''---'' @ [10]"

definition FM_CLOSE :: jstring where
  "FM_CLOSE = [10] @ js ''---'' @ [10]"

definition matchFrontmatter :: "jstring \<Rightarrow> (jstring \<times> jstring) option" where
  "matchFrontmatter content =
     (if startsWith content FM_OPEN
      then splitAtFirst (\<lambda>c. False) FM_CLOSE (drop (length FM_OPEN) content)
      else None)"

text \<open>
  \<^verbatim>\<open>function parseFrontmatter(content: string): { frontmatter: Frontmatter; body: string }\<close>.
  \<open>parseHeader\<close> is what the function does with the first group of the match
  (\<^verbatim>\<open>frontmatterStr\<close>): the loop over its lines; after the loop a pending array is
  stored (\<^verbatim>\<open>if (inArray) { frontmatter[currentKey] = arrayItems }\<close>), and
  \<^verbatim>\<open>tags\<close> is set to the empty array unless it is an array
  (\<^verbatim>\<open>if (!Array.isArray(frontmatter.tags)) frontmatter.tags = []\<close>). The function
  throws when the text does not match, and returns the record with
  \<^verbatim>\<open>body.trim()\<close> otherwise.
\<close>

definition ensureTags :: "frontmatter \<Rightarrow> frontmatter" where
  "ensureTags fm =
     (case getField fm (js ''tags'') of
        Some (Items xs) \<Rightarrow> fm
      | _ \<Rightarrow> setField (js ''tags'') (Items []) fm)"

definition parseHeader :: "jstring \<Rightarrow> frontmatter" where
  "parseHeader frontmatterStr =
     (let st = foldl parseLine
                 \<lparr>parsed = [], currentKey = [], inArray = False, arrayItems = []\<rparr>
                 (splitOn 10 frontmatterStr);
          st' = (if inArray st then saveArray st else st)
      in ensureTags (parsed st'))"

definition parseFrontmatter :: "jstring \<Rightarrow> error + (frontmatter \<times> jstring)" where
  "parseFrontmatter content =
     (case matchFrontmatter content of
        None \<Rightarrow> Inl FormatError
      | Some (frontmatterStr, body) \<Rightarrow> Inr (parseHeader frontmatterStr, trim body))"

section \<open>Markdown renderer\<close>

definition LI_OPEN :: jstring where
  \<open>LI_OPEN = js ''<li class="flex items-start gap-2">''\<close>

definition LI_CLOSE :: jstring where
  \<open>LI_CLOSE = js ''</li>''\<close>

definition UL_OPEN :: jstring where
  \<open>UL_OPEN = js ''<ul class="space-y-2 text-gray-600 my-4">''\<close>

definition UL_CLOSE :: jstring where
  \<open>UL_CLOSE = js ''</ul>''\<close>

definition P_OPEN :: jstring where
  \<open>P_OPEN = js ''<p class="text-gray-600 my-4">''\<close>

definition P_CLOSE :: jstring where
  \<open>P_CLOSE = js ''</p>''\<close>

text \<open>The replacement of the list-item pass around \<^verbatim>\<open>$1\<close>; 8226 is the bullet.\<close>

definition ITEM_OPEN :: jstring where
  \<open>ITEM_OPEN = LI_OPEN @ js ''<span class="text-accent">'' @ [8226] @ js ''</span><span>''\<close>

definition ITEM_CLOSE :: jstring where
  \<open>ITEM_CLOSE = js ''</span>'' @ LI_CLOSE\<close>

text \<open>
  Headers, from h6 down to h1:
  \<^verbatim>\<open>html.replace(/^###### (.*$)/gm, '<h6 class="text-sm font-semibold text-primary mt-4 mb-2">$1</h6>')\<close>
  and so on.
\<close>

definition headers :: "jstring \<Rightarrow> jstring" where
  \<open>headers html =
     replaceLinePrefix (js ''# '')
       (js ''<h1 class="text-3xl font-bold text-primary mt-12 mb-6">'') (js ''</h1>'')
    (replaceLinePrefix (js ''## '')
       (js ''<h2 class="text-2xl font-bold text-primary mt-10 mb-4">'') (js ''</h2>'')
    (replaceLinePrefix (js ''### '')
       (js ''<h3 class="text-xl font-bold text-primary mt-8 mb-4">'') (js ''</h3>'')
    (replaceLinePrefix (js ''#### '')
       (js ''<h4 class="text-lg font-bold text-primary mt-6 mb-3">'') (js ''</h4>'')
    (replaceLinePrefix (js ''##### '')
       (js ''<h5 class="text-base font-semibold text-primary mt-4 mb-2">'') (js ''</h5>'')
    (replaceLinePrefix (js ''###### '')
       (js ''<h6 class="text-sm font-semibold text-primary mt-4 mb-2">'') (js ''</h6>'')
     html)))))\<close>

text \<open>
  Bold and italic:
  \<^verbatim>\<open>html.replace(/\*\*\*(.*?)\*\*\*/g, '<strong><em>$1</em></strong>')\<close>,
  \<^verbatim>\<open>html.replace(/\*\*(.*?)\*\*/g, '<strong>$1</strong>')\<close>,
  \<^verbatim>\<open>html.replace(/\*(.*?)\*/g, '<em class="text-accent">$1</em>')\<close>; 42 is the asterisk.
\<close>

definition tripleEmphasis :: "jstring \<Rightarrow> jstring" where
  \<open>tripleEmphasis =
     replaceAll (matchDelimited [42, 42, 42] (js ''<strong><em>'') (js ''</em></strong>''))\<close>

definition doubleEmphasis :: "jstring \<Rightarrow> jstring" where
  \<open>doubleEmphasis = replaceAll (matchDelimited [42, 42] (js ''<strong>'') (js ''</strong>''))\<close>

definition EM_OPEN :: jstring where
  \<open>EM_OPEN = js ''<em class="text-accent">''\<close>

definition EM_CLOSE :: jstring where
  \<open>EM_CLOSE = js ''</em>''\<close>

definition singleEmphasis :: "jstring \<Rightarrow> jstring" where
  "singleEmphasis = replaceAll (matchDelimited [42] EM_OPEN EM_CLOSE)"

definition emphasis :: "jstring \<Rightarrow> jstring" where
  "emphasis html = singleEmphasis (doubleEmphasis (tripleEmphasis html))"

text \<open>Blockquotes: \<^verbatim>\<open>html.replace(/^> (.*$)/gm, '<blockquote class="...">$1</blockquote>')\<close>.\<close>

definition blockquotes :: "jstring \<Rightarrow> jstring" where
  \<open>blockquotes =
     replaceLinePrefix (js ''> '')
       (js ''<blockquote class="border-l-4 border-accent pl-4 my-6 italic text-gray-600">'')
       (js ''</blockquote>'')\<close>

text \<open>Unordered lists: \<^verbatim>\<open>html.replace(/^- (.*$)/gm, '<li class="flex items-start gap-2"><span class="text-accent">&bull;</span><span>$1</span></li>')\<close>
  (the source has the bullet character itself).\<close>

definition listItems :: "jstring \<Rightarrow> jstring" where
  "listItems = replaceLinePrefix (js ''- '') ITEM_OPEN ITEM_CLOSE"

text \<open>
  Wrap consecutive list items:
  \<^verbatim>\<open>html.replace(/(<li class="flex items-start gap-2">.*?<\/li>\n?)+/gs, (match) => `<ul class="space-y-2 text-gray-600 my-4">${match}</ul>`)\<close>.
  With the \<^verbatim>\<open>s\<close> flag the dot matches every character. One round of the group
  (\<open>matchItem\<close>, given the two tags) is the opening tag, the shortest text up to a closing tag, and a line
  feed if one follows. The group is repeated greedily (\<open>matchItems\<close>): as long as another
  round matches right behind the last one. Nothing follows the group in the pattern, so
  the first way of matching it that the backtracking order reaches is the one described.
\<close>

definition matchItem :: "jstring \<Rightarrow> jstring \<Rightarrow> jstring \<Rightarrow> (jstring \<times> jstring) option" where
  "matchItem opn cls s =
     (if startsWith s opn then
        (case splitAtFirst (\<lambda>c. False) cls (drop (length opn) s) of
           None \<Rightarrow> None
         | Some (inner, rest) \<Rightarrow>
             (case rest of
                [] \<Rightarrow> Some (opn @ inner @ cls, rest)
              | c # cs \<Rightarrow>
                  if c = 10 then Some (opn @ inner @ cls @ [10], cs)
                  else Some (opn @ inner @ cls, rest)))
      else None)"

function matchItems :: "jstring \<Rightarrow> jstring \<Rightarrow> jstring \<Rightarrow> jstring \<times> jstring" where
  "matchItems opn cls s =
     (case matchItem opn cls s of
        None \<Rightarrow> ([], s)
      | Some (m, rest) \<Rightarrow>
          if length rest < length s
          then (case matchItems opn cls rest of (ms, r) \<Rightarrow> (m @ ms, r))
          else ([], s))"
  by pat_completeness auto
termination
  by (relation "measure (\<lambda>(opn, cls, s). length s)") auto

definition matchList ::
  "jstring \<Rightarrow> jstring \<Rightarrow> jstring \<Rightarrow> jstring \<Rightarrow> jstring \<Rightarrow> (jstring \<times> jstring) option" where
  "matchList opn cls ulOpen ulClose s =
     (case matchItem opn cls s of
        None \<Rightarrow> None
      | Some _ \<Rightarrow>
          (case matchItems opn cls s of (m, rest) \<Rightarrow> Some (ulOpen @ m @ ulClose, rest)))"

definition wrapLists :: "jstring \<Rightarrow> jstring" where
  "wrapLists = replaceAll (matchList LI_OPEN LI_CLOSE UL_OPEN UL_CLOSE)"

text \<open>
  Paragraphs:
  \<^verbatim>\<open>
  const lines = html.split('\n')
  const processedLines = lines.map((line) => {
    const trimmed = line.trim()
    if (!trimmed || trimmed.startsWith('<') || trimmed.startsWith('</') ||
        trimmed.includes('</li>') || trimmed.includes('</ul>')) {
      return line
    }
    return `<p class="text-gray-600 my-4">${trimmed}</p>`
  })
  html = processedLines.join('\n')
  \<close>
\<close>

definition paragraphLine :: "jstring \<Rightarrow> jstring \<Rightarrow> jstring \<Rightarrow> jstring" where
  \<open>paragraphLine opn cls line =
     (let trimmed = trim line in
      if trimmed = [] then line
      else if startsWith trimmed (js ''<'') then line
      else if startsWith trimmed (js ''</'') then line
      else if includesStr trimmed (js ''</li>'') then line
      else if includesStr trimmed (js ''</ul>'') then line
      else opn @ trimmed @ cls)\<close>

definition paragraphs :: "jstring \<Rightarrow> jstring" where
  "paragraphs html = joinWith [10] (map (paragraphLine P_OPEN P_CLOSE) (splitOn 10 html))"

text \<open>Clean up empty paragraphs:
  \<^verbatim>\<open>html.replace(/<p class="text-gray-600 my-4"><\/p>/g, '')\<close>.\<close>

definition cleanEmptyParagraphs :: "jstring \<Rightarrow> jstring" where
  "cleanEmptyParagraphs = replaceAll (matchLiteral (P_OPEN @ P_CLOSE) [])"

text \<open>
  Links: \<^verbatim>\<open>html.replace(/\[([^\]]+)\]\(([^)]+)\)/g, '<a href="$2" class="text-accent hover:underline">$1</a>')\<close>.
  A negated class followed by the character it excludes is matched by the longest run
  of other characters, and by nothing shorter. 91 and 93 are the brackets, 40 and 41 the
  parentheses, 33 the exclamation mark.
\<close>

definition matchBracketed :: "bool \<Rightarrow> jstring \<Rightarrow> (jstring \<times> jstring \<times> jstring) option" where
  "matchBracketed emptyText s =
     (case s of
        [] \<Rightarrow> None
      | c # cs \<Rightarrow>
          if c \<noteq> 91 then None
          else
            (let label = takeWhile (\<lambda>x. x \<noteq> 93) cs;
                 r1 = dropWhile (\<lambda>x. x \<noteq> 93) cs
             in if label = [] \<and> \<not> emptyText then None
                else if \<not> startsWith r1 [93, 40] then None
                else
                  (let r2 = drop 2 r1;
                       url = takeWhile (\<lambda>x. x \<noteq> 41) r2;
                       r3 = dropWhile (\<lambda>x. x \<noteq> 41) r2
                   in if url = [] \<or> r3 = [] then None
                      else Some (label, url, tl r3))))"

definition matchLink ::
  "jstring \<Rightarrow> jstring \<Rightarrow> jstring \<Rightarrow> jstring \<Rightarrow> (jstring \<times> jstring) option" where
  "matchLink a b c s =
     (case matchBracketed False s of
        None \<Rightarrow> None
      | Some (label, url, rest) \<Rightarrow> Some (a @ url @ b @ label @ c, rest))"

definition links :: "jstring \<Rightarrow> jstring" where
  \<open>links =
     replaceAll (matchLink (js ''<a href="'') (js ''" class="text-accent hover:underline">'')
       (js ''</a>''))\<close>

text \<open>Images in content:
  \<^verbatim>\<open>html.replace(/!\[([^\]]*)\]\(([^)]+)\)/g, '<img src="$2" alt="$1" class="rounded-lg my-6 w-full" />')\<close>,
  run on what the link pass has left.\<close>

definition matchImage ::
  "jstring \<Rightarrow> jstring \<Rightarrow> jstring \<Rightarrow> jstring \<Rightarrow> (jstring \<times> jstring) option" where
  "matchImage a b c s =
     (case s of
        [] \<Rightarrow> None
      | x # xs \<Rightarrow>
          if x \<noteq> 33 then None
          else
            (case matchBracketed True xs of
               None \<Rightarrow> None
             | Some (alt, url, rest) \<Rightarrow> Some (a @ url @ b @ alt @ c, rest)))"

definition images :: "jstring \<Rightarrow> jstring" where
  \<open>images =
     replaceAll (matchImage (js ''<img src="'') (js ''" alt="'')
       (js ''" class="rounded-lg my-6 w-full" />''))\<close>

text \<open>\<^verbatim>\<open>function markdownToHtml(markdown: string): string\<close>: the passes in the order of
  the source.\<close>

definition markdownToHtml :: "jstring \<Rightarrow> jstring" where
  "markdownToHtml markdown =
     images (links (cleanEmptyParagraphs (paragraphs (wrapLists (listItems
       (blockquotes (emphasis (headers markdown))))))))"

section \<open>Code generator: helpers\<close>

text \<open>
  \<^verbatim>\<open>function escapeTemplate(str) { return str.replace(/`/g, '\\`').replace(/\$/g, '\\$') }\<close>
  Two passes over the string: every backtick gets a backslash in front, then every dollar
  sign does. No other character is touched, the backslash included.
\<close>

definition replaceChar :: "nat \<Rightarrow> jstring \<Rightarrow> jstring \<Rightarrow> jstring" where
  "replaceChar c r s = concat (map (\<lambda>x. if x = c then r else [x]) s)"

definition escapeTemplate :: "jstring \<Rightarrow> jstring" where
  "escapeTemplate str = replaceChar 36 [92, 36] (replaceChar 96 [92, 96] str)"

subsection \<open>How the runtime reads a template literal\<close>

text \<open>
  The generated module holds the markup between backticks. What the JavaScript runtime
  makes of that text is fixed by the ECMAScript lexical grammar (template literal lexical
  components), of which \<open>readTemplate\<close> is the part needed here. It is given the text
  after the opening backtick and returns the string value of the literal together with
  the text after the closing backtick:
  \<^item> an unescaped backtick closes the literal;
  \<^item> \<^verbatim>\<open>${\<close> opens a substitution, so the literal is no longer a plain string
    (\<open>None\<close>);
  \<^item> a backslash introduces an escape sequence: the single-character escapes
    \<^verbatim>\<open>\b \f \n \r \t \v\<close> stand for control characters, a backslash before a line
    terminator is a line continuation, and before any other character but a digit,
    \<^verbatim>\<open>x\<close> or \<^verbatim>\<open>u\<close> it stands for that character; numeric escapes are not
    modelled (\<open>None\<close>);
  \<^item> a carriage return, alone or before a line feed, is read as one line feed;
  \<^item> the text must not end before the closing backtick (\<open>None\<close>).
\<close>

definition escapeValue :: "nat \<Rightarrow> jstring option" where
  "escapeValue e =
     (if e = 98 then Some [8]
      else if e = 102 then Some [12]
      else if e = 110 then Some [10]
      else if e = 114 then Some [13]
      else if e = 116 then Some [9]
      else if e = 118 then Some [11]
      else if (48 \<le> e \<and> e \<le> 57) \<or> e = 120 \<or> e = 117 then None
      else if isLineTerminator e then Some []
      else Some [e])"

definition consValue :: "jstring \<Rightarrow> (jstring \<times> jstring) option \<Rightarrow> (jstring \<times> jstring) option" where
  "consValue v r = map_option (\<lambda>(t, rest). (v @ t, rest)) r"

fun readTemplate :: "jstring \<Rightarrow> (jstring \<times> jstring) option" where
  "readTemplate [] = None"
| "readTemplate (c # cs) =
     (if c = 96 then Some ([], cs)
      else if c = 92 then
        (case cs of
           [] \<Rightarrow> None
         | e # es \<Rightarrow>
             (case escapeValue e of
                None \<Rightarrow> None
              | Some v \<Rightarrow>
                  (case es of
                     [] \<Rightarrow> None
                   | d # ds \<Rightarrow>
                       if e = 13 \<and> d = 10 then consValue v (readTemplate ds)
                       else consValue v (readTemplate es))))
      else if c = 36 \<and> startsWith cs [123] then None
      else if c = 13 then
        (case cs of
           [] \<Rightarrow> None
         | d # ds \<Rightarrow>
             if d = 10 then consValue [10] (readTemplate ds)
             else consValue [10] (readTemplate cs))
      else consValue [c] (readTemplate cs))"

section \<open>Code generator\<close>

text \<open>
  \<^verbatim>\<open>function camelCase(str) { return str.replace(/-([a-z])/g, (_, letter) => letter.toUpperCase()) }\<close>:
  a hyphen (45) before a lower-case ASCII letter (97 to 122) is dropped and the letter
  is put in upper case.
\<close>

fun camelCase :: "jstring \<Rightarrow> jstring" where
  "camelCase [] = []"
| "camelCase [c] = [c]"
| "camelCase (c # d # cs) =
     (if c = 45 \<and> 97 \<le> d \<and> d \<le> 122 then (d - 32) # camelCase cs
      else c # camelCase (d # cs))"

text \<open>
  \<^verbatim>\<open>JSON.stringify\<close> on a string (ECMAScript's QuoteJSONString): the quotation mark
  (34), the backslash (92) and the control characters are escaped, a surrogate code unit
  that is not part of a pair is written as a \<^verbatim>\<open>\u\<close> escape, every other code unit
  is copied.
\<close>

definition hexDigit :: "nat \<Rightarrow> nat" where
  "hexDigit d = (if d < 10 then 48 + d else 87 + d)"

definition unicodeEscape :: "nat \<Rightarrow> jstring" where
  "unicodeEscape c =
     [92, 117, hexDigit (c div 4096 mod 16), hexDigit (c div 256 mod 16),
      hexDigit (c div 16 mod 16), hexDigit (c mod 16)]"

definition quoteCodeUnit :: "nat \<Rightarrow> jstring" where
  "quoteCodeUnit c =
     (if c = 8 then [92, 98]
      else if c = 9 then [92, 116]
      else if c = 10 then [92, 110]
      else if c = 12 then [92, 102]
      else if c = 13 then [92, 114]
      else if c = 34 then [92, 34]
      else if c = 92 then [92, 92]
      else if c < 32 then unicodeEscape c
      else [c])"

definition isLeadingSurrogate :: "nat \<Rightarrow> bool" where
  "isLeadingSurrogate c = (55296 \<le> c \<and> c \<le> 56319)"

definition isTrailingSurrogate :: "nat \<Rightarrow> bool" where
  "isTrailingSurrogate c = (56320 \<le> c \<and> c \<le> 57343)"

fun quoteJSON :: "jstring \<Rightarrow> jstring" where
  "quoteJSON [] = []"
| "quoteJSON (c # cs) =
     (if isLeadingSurrogate c then
        (case cs of
           [] \<Rightarrow> unicodeEscape c
         | d # ds \<Rightarrow>
             if isTrailingSurrogate d then c # d # quoteJSON ds
             else unicodeEscape c @ quoteJSON cs)
      else if isTrailingSurrogate c then unicodeEscape c @ quoteJSON cs
      else quoteCodeUnit c @ quoteJSON cs)"

definition jsonString :: "jstring \<Rightarrow> jstring" where
  "jsonString s = [34] @ quoteJSON s @ [34]"

text \<open>
  \<^verbatim>\<open>${JSON.stringify(v)}\<close> for a field \<open>v\<close> of the frontmatter:
  \<^verbatim>\<open>JSON.stringify(undefined)\<close> is \<^verbatim>\<open>undefined\<close>, which the template literal
  prints as the word.
\<close>

definition jsonStringify :: "fmval option \<Rightarrow> jstring" where
  "jsonStringify v =
     (case v of
        None \<Rightarrow> js ''undefined''
      | Some (Scalar s) \<Rightarrow> jsonString s
      | Some (Items xs) \<Rightarrow> js ''['' @ joinWith (js '','') (map jsonString xs) @ js '']'')"

text \<open>Whether a field counts as true in \<^verbatim>\<open>a.meta.subtitle ? ... : ''\<close>: a
  non-empty string and every array do.\<close>

definition truthy :: "fmval option \<Rightarrow> bool" where
  "truthy v =
     (case v of
        None \<Rightarrow> False
      | Some (Scalar s) \<Rightarrow> s \<noteq> []
      | Some (Items xs) \<Rightarrow> True)"

text \<open>What \<^verbatim>\<open>processMarkdownFile\<close> returns:
  \<^verbatim>\<open>{ slug: frontmatter.slug, meta: frontmatter, html: processedHtml }\<close>.\<close>

record article =
  slug :: "fmval option"
  meta :: frontmatter
  html :: jstring

text \<open>The lines of a template literal, each ended by a line feed.\<close>

definition unlinesJS :: "jstring list \<Rightarrow> jstring" where
  "unlinesJS ls = concat (map (\<lambda>l. l @ [10]) ls)"

text \<open>
  The field lines that the article module and the metadata listing share:
  \<^verbatim>\<open>title: ${JSON.stringify(a.meta.title)},\<close> and so on, behind the given indentation,
  and the line of the optional subtitle.
\<close>

definition fieldLine :: "jstring \<Rightarrow> frontmatter \<Rightarrow> jstring \<Rightarrow> jstring" where
  "fieldLine indent fm name = indent @ name @ js '': '' @ jsonStringify (getField fm name) @ js '',''"

definition subtitleLine :: "jstring \<Rightarrow> frontmatter \<Rightarrow> jstring" where
  "subtitleLine indent fm =
     indent @ (if truthy (getField fm (js ''subtitle''))
               then js ''subtitle: '' @ jsonStringify (getField fm (js ''subtitle'')) @ js '',''
               else [])"

definition fieldLines :: "jstring \<Rightarrow> frontmatter \<Rightarrow> jstring list" where
  "fieldLines indent fm =
     map (fieldLine indent fm)
       [js ''title'', js ''slug'', js ''excerpt'', js ''featuredImage'', js ''category'',
        js ''publishDate'', js ''author'', js ''tags'']
     @ [subtitleLine indent fm]"

text \<open>
  The text of one article module (\<^verbatim>\<open>const articleContent = `...`\<close>), for the slug as
  a string. 96 is the backtick around the markup, 39 the single quote.
\<close>

definition articleText :: "jstring \<Rightarrow> article \<Rightarrow> jstring" where
  "articleText s a =
     unlinesJS
       ([js ''// Auto-generated - DO NOT EDIT'',
         js ''// Generated by: pnpm blog:build'',
         js ''// Source: blog-content/'' @ s @ js ''.md'',
         [],
         js ''import type { BlogPost } from '' @ [39] @ js ''../../types/blog'' @ [39],
         [],
         js ''export const '' @ camelCase s @ js '': BlogPost = {'']
        @ fieldLines (js ''  '') (meta a)
        @ [js ''  content: '' @ [96] @ escapeTemplate (html a) @ [96] @ js '','',
           js ''}'',
           [],
           js ''export default '' @ camelCase s])"

text \<open>
  The module text around the markup literal: what stands before the opening backtick and
  what stands behind the closing one (lemma \<open>articleText_literal\<close>).
\<close>

definition moduleHead :: "jstring \<Rightarrow> article \<Rightarrow> jstring" where
  "moduleHead s a =
     unlinesJS
       ([js ''// Auto-generated - DO NOT EDIT'',
         js ''// Generated by: pnpm blog:build'',
         js ''// Source: blog-content/'' @ s @ js ''.md'',
         [],
         js ''import type { BlogPost } from '' @ [39] @ js ''../../types/blog'' @ [39],
         [],
         js ''export const '' @ camelCase s @ js '': BlogPost = {'']
        @ fieldLines (js ''  '') (meta a))
     @ js ''  content: ''"

definition moduleTail :: "jstring \<Rightarrow> jstring" where
  "moduleTail s = js '','' @ [10] @ unlinesJS [js ''}'', [], js ''export default '' @ camelCase s]"

text \<open>
  \<^verbatim>\<open>camelCase(article.slug)\<close> is a call of \<^verbatim>\<open>replace\<close> on the slug: it throws a
  \<^verbatim>\<open>TypeError\<close> when the frontmatter has no slug or has an array under that key.
\<close>

definition slugString :: "article \<Rightarrow> error + jstring" where
  "slugString a =
     (case slug a of
        Some (Scalar s) \<Rightarrow> Inr s
      | _ \<Rightarrow> Inl TypeError)"

definition articleContent :: "article \<Rightarrow> error + jstring" where
  "articleContent a =
     (case slugString a of
        Inl e \<Rightarrow> Inl e
      | Inr s \<Rightarrow> Inr (articleText s a))"

text \<open>The three places of the index module that hold one piece per article.\<close>

definition importLine :: "jstring \<Rightarrow> jstring" where
  "importLine s = js ''import { '' @ camelCase s @ js '' } from '' @ [39] @ js ''./'' @ s @ [39]"

definition mappingLine :: "jstring \<Rightarrow> jstring" where
  "mappingLine s = js ''  '' @ [39] @ s @ [39] @ js '': '' @ camelCase s @ js '',''"

definition metaBlock :: "article \<Rightarrow> jstring" where
  "metaBlock a = joinWith [10] ([js ''  {''] @ fieldLines (js ''    '') (meta a) @ [js ''  },''])"

text \<open>The text of the index module (\<^verbatim>\<open>const indexContent = `...`\<close>), for the slugs
  of the articles as strings.\<close>

definition indexText :: "jstring list \<Rightarrow> article list \<Rightarrow> jstring" where
  "indexText slugs articles =
     unlinesJS
       [js ''// Auto-generated - DO NOT EDIT'',
        js ''// Generated by: pnpm blog:build'',
        [],
        js ''import type { BlogPostMeta, BlogPost } from '' @ [39] @ js ''../../types/blog'' @ [39],
        [],
        joinWith [10] (map importLine slugs),
        [],
        js ''// All blog posts with full content'',
        js ''export const blogPosts: Record<string, BlogPost> = {'',
        joinWith [10] (map mappingLine slugs),
        js ''}'',
        [],
        js ''// Blog posts metadata only (for listing pages)'',
        js ''export const blogPostsMeta: BlogPostMeta[] = ['',
        joinWith [10] (map metaBlock articles),
        js '']'',
        [],
        js ''// Get a single blog post by slug'',
        js ''export function getBlogPost(slug: string): BlogPost | undefined {'',
        js ''  return blogPosts[slug]'',
        js ''}'',
        [],
        js ''// Get all categories'',
        js ''export function getAllCategories(): string[] {'',
        js ''  const categories = new Set(blogPostsMeta.map((post) => post.category))'',
        js ''  return Array.from(categories).sort()'',
        js ''}'',
        [],
        js ''// Get all tags'',
        js ''export function getAllTags(): string[] {'',
        js ''  const tags = new Set(blogPostsMeta.flatMap((post) => post.tags))'',
        js ''  return Array.from(tags).sort()'',
        js ''}'',
        [],
        js ''export default blogPosts'']"

text \<open>The slugs of the articles, if every one of them is a string.\<close>

definition slugStrings :: "article list \<Rightarrow> jstring list option" where
  "slugStrings articles =
     those (map (\<lambda>a. case slugString a of Inl e \<Rightarrow> None | Inr s \<Rightarrow> Some s) articles)"

definition indexContent :: "article list \<Rightarrow> error + jstring" where
  "indexContent articles =
     (case slugStrings articles of
        None \<Rightarrow> Inl TypeError
      | Some slugs \<Rightarrow> Inr (indexText slugs articles))"

text \<open>The index that \<^verbatim>\<open>deleteArticle\<close> writes when no markdown file is left
  (\<^verbatim>\<open>const emptyIndex = `...`\<close>).\<close>

definition emptyIndexLines :: "jstring list" where
  "emptyIndexLines =
     [js ''// Auto-generated - DO NOT EDIT'',
      js ''// Generated by: pnpm blog:build'',
      [],
      js ''import type { BlogPostMeta, BlogPost } from '' @ [39] @ js ''../../types/blog'' @ [39],
      [],
      js ''// All blog posts with full content'',
      js ''export const blogPosts: Record<string, BlogPost> = {}'',
      [],
      js ''// Blog posts metadata only (for listing pages)'',
      js ''export const blogPostsMeta: BlogPostMeta[] = []'',
      [],
      js ''// Get a single blog post by slug'',
      js ''export function getBlogPost(slug: string): BlogPost | undefined {'',
      js ''  return blogPosts[slug]'',
      js ''}'',
      [],
      js ''// Get all categories'',
      js ''export function getAllCategories(): string[] {'',
      js ''  return []'',
      js ''}'',
      [],
      js ''// Get all tags'',
      js ''export function getAllTags(): string[] {'',
      js ''  return []'',
      js ''}'',
      [],
      js ''export default blogPosts'']"

definition emptyIndex :: jstring where
  "emptyIndex = unlinesJS emptyIndexLines"

section \<open>Files, console and process\<close>

text \<open>
  The script reads the directory of markdown files (\<^verbatim>\<open>BLOG_CONTENT_DIR\<close>, with the
  images in its subdirectory \<^verbatim>\<open>images\<close>) and owns two directories that it writes:
  the generated modules (\<^verbatim>\<open>OUTPUT_DATA_DIR\<close>) and the public images
  (\<^verbatim>\<open>PUBLIC_BLOG_IMAGES_DIR\<close>). A directory is the list of its entries in the order
  in which \<^verbatim>\<open>readdirSync\<close> lists them, or \<open>None\<close> when it does not exist. The
  content directory may hold files and directories; the two directories the script owns
  hold the files it has written. A file is named by its name in its directory: slugs
  and file names are taken to be single path segments. Files hold text (the script reads
  and writes UTF-8 and works on the decoded strings).
\<close>

datatype node = File jstring | Dir "(jstring \<times> node) list"

text \<open>\<^verbatim>\<open>log(message, color)\<close> prints one line in a colour, \<^verbatim>\<open>console.log('')\<close> an
  empty line; \<open>Caught e\<close> is the line \<^verbatim>\<open>log(`Error: ${error.message}`, 'red')\<close> of the
  handler at the end of the script, whose text for an error of the runtime is the
  runtime's.\<close>

datatype color = Reset | Bright | Green | Yellow | Blue | Red | Cyan

datatype logline = Line color jstring | Blank | Caught error

record world =
  contentDirPath :: jstring
  contentDir :: "(jstring \<times> node) list option"
  outputDir :: "(jstring \<times> jstring) list option"
  publicImagesDir :: "(jstring \<times> jstring) list option"
  console :: "logline list"

text \<open>How a step of the script ends: it returns or it throws, and leaves the files and
  the console as they are at that moment.\<close>

datatype result = Done world | Throw error world

definition log :: "jstring \<Rightarrow> color \<Rightarrow> world \<Rightarrow> world" where
  "log message c w = w\<lparr>console := console w @ [Line c message]\<rparr>"

definition logBlank :: "world \<Rightarrow> world" where
  "logBlank w = w\<lparr>console := console w @ [Blank]\<rparr>"

definition entries :: "(jstring \<times> 'a) list option \<Rightarrow> (jstring \<times> 'a) list" where
  "entries d = (case d of None \<Rightarrow> [] | Some es \<Rightarrow> es)"

definition readOutput :: "world \<Rightarrow> jstring \<Rightarrow> jstring option" where
  "readOutput w name = map_of (entries (outputDir w)) name"

text \<open>\<^verbatim>\<open>fs.writeFileSync(path.join(OUTPUT_DATA_DIR, name), text)\<close>: the file is replaced
  or added; without the directory the call fails.\<close>

definition writeOutput :: "jstring \<Rightarrow> jstring \<Rightarrow> world \<Rightarrow> result" where
  "writeOutput name contents w =
     (case outputDir w of
        None \<Rightarrow> Throw EnvironmentError w
      | Some es \<Rightarrow> Done (w\<lparr>outputDir := Some (AList.update name contents es)\<rparr>))"

text \<open>
  \<^verbatim>\<open>
  function getMarkdownFiles(): string[] {
    if (!fs.existsSync(BLOG_CONTENT_DIR)) {
      log(`Blog content directory not found: ${BLOG_CONTENT_DIR}`, 'red')
      return []
    }
    return fs.readdirSync(BLOG_CONTENT_DIR)
      .filter((file) => file.endsWith('.md'))
      .map((file) => path.join(BLOG_CONTENT_DIR, file))
  }
  \<close>
  A path in the content directory is modelled by the file name.
\<close>

definition getMarkdownFiles :: "world \<Rightarrow> jstring list \<times> world" where
  "getMarkdownFiles w =
     (case contentDir w of
        None \<Rightarrow> ([], log (js ''Blog content directory not found: '' @ contentDirPath w) Red w)
      | Some es \<Rightarrow> (filter (\<lambda>file. endsWith file (js ''.md'')) (map fst es), w))"

text \<open>
  \<^verbatim>\<open>path.basename(f, '.md')\<close> for the path of a directory entry whose name ends
  with \<^verbatim>\<open>.md\<close>: the name without the suffix, except that a base name equal to
  the suffix is kept whole.
\<close>

definition basenameMd :: "jstring \<Rightarrow> jstring" where
  "basenameMd f = (if f = js ''.md'' then f else take (length f - 3) f)"

text \<open>
  \<^verbatim>\<open>function copyImages(): void\<close>: nothing but a warning when
  \<^verbatim>\<open>BLOG_IMAGES_DIR\<close> does not exist; otherwise the public directory is created if
  need be and every regular file of the images directory is copied
  (\<^verbatim>\<open>if (fs.statSync(src).isFile()) { fs.copyFileSync(src, dest); log(`  Copied: ${image}`, 'cyan') }\<close>).
  \<^verbatim>\<open>readdirSync\<close> fails when \<^verbatim>\<open>images\<close> is a file.
\<close>

fun copyFiles :: "(jstring \<times> node) list \<Rightarrow> world \<Rightarrow> world" where
  "copyFiles [] w = w"
| "copyFiles ((img, n) # rest) w =
     (case n of
        Dir _ \<Rightarrow> copyFiles rest w
      | File c \<Rightarrow>
          copyFiles rest
            (log (js ''  Copied: '' @ img) Cyan
               (w\<lparr>publicImagesDir := Some (AList.update img c (entries (publicImagesDir w)))\<rparr>)))"

definition copyImages :: "world \<Rightarrow> result" where
  "copyImages w =
     (case map_of (entries (contentDir w)) (js ''images'') of
        None \<Rightarrow> Done (log (js ''No images directory found, skipping image copy'') Yellow w)
      | Some n \<Rightarrow>
          (let w' = (if publicImagesDir w = None then w\<lparr>publicImagesDir := Some []\<rparr> else w)
           in case n of
                File _ \<Rightarrow> Throw EnvironmentError w'
              | Dir imgs \<Rightarrow> Done (copyFiles imgs w')))"

text \<open>
  \<^verbatim>\<open>
  function processMarkdownFile(filePath: string): { slug: string; meta: Frontmatter; html: string } {
    const content = fs.readFileSync(filePath, 'utf-8')
    const { frontmatter, body } = parseFrontmatter(content)
    const html = markdownToHtml(body)
    let processedHtml = html
    if (frontmatter.featuredImage && frontmatter.featuredImage.startsWith('images/')) {
      frontmatter.featuredImage = `/images/blog/${frontmatter.featuredImage.replace('images/', '')}`
    }
    return { slug: frontmatter.slug, meta: frontmatter, html: processedHtml }
  }
  \<close>
  Reading fails on a directory (and on a missing file). An array under
  \<^verbatim>\<open>featuredImage\<close> is true and has no method \<^verbatim>\<open>startsWith\<close>: a
  \<^verbatim>\<open>TypeError\<close>. \<^verbatim>\<open>replace('images/', '')\<close> removes the first occurrence, which is
  the prefix just tested.
\<close>

definition readContent :: "world \<Rightarrow> jstring \<Rightarrow> error + jstring" where
  "readContent w file =
     (case map_of (entries (contentDir w)) file of
        Some (File c) \<Rightarrow> Inr c
      | _ \<Rightarrow> Inl EnvironmentError)"

definition publicImagePath :: "frontmatter \<Rightarrow> error + frontmatter" where
  "publicImagePath fm =
     (case getField fm (js ''featuredImage'') of
        None \<Rightarrow> Inr fm
      | Some (Items xs) \<Rightarrow> Inl TypeError
      | Some (Scalar v) \<Rightarrow>
          if v \<noteq> [] \<and> startsWith v (js ''images/'')
          then Inr (setField (js ''featuredImage'')
                      (Scalar (js ''/images/blog/'' @ drop (length (js ''images/'')) v)) fm)
          else Inr fm)"

definition processContent :: "jstring \<Rightarrow> error + article" where
  "processContent content =
     (case parseFrontmatter content of
        Inl e \<Rightarrow> Inl e
      | Inr (fm, body) \<Rightarrow>
          (let rendered = markdownToHtml body in
           case publicImagePath fm of
             Inl e \<Rightarrow> Inl e
           | Inr fm' \<Rightarrow> Inr \<lparr>slug = getField fm' (js ''slug''), meta = fm', html = rendered\<rparr>))"

definition processMarkdownFile :: "world \<Rightarrow> jstring \<Rightarrow> error + article" where
  "processMarkdownFile w filePath =
     (case readContent w filePath of
        Inl e \<Rightarrow> Inl e
      | Inr content \<Rightarrow> processContent content)"

text \<open>\<^verbatim>\<open>files.map((file) => processMarkdownFile(file))\<close>: the first error ends the
  whole call.\<close>

fun processFiles :: "world \<Rightarrow> jstring list \<Rightarrow> error + article list" where
  "processFiles w [] = Inr []"
| "processFiles w (file # files) =
     (case processMarkdownFile w file of
        Inl e \<Rightarrow> Inl e
      | Inr a \<Rightarrow>
          (case processFiles w files of
             Inl e \<Rightarrow> Inl e
           | Inr as \<Rightarrow> Inr (a # as)))"

text \<open>The same with the line \<^verbatim>\<open>log(`  Reading: ${path.basename(file)}`, 'cyan')\<close>
  before each file, as in \<^verbatim>\<open>build\<close>.\<close>

fun processLogged :: "jstring list \<Rightarrow> world \<Rightarrow> (error + article list) \<times> world" where
  "processLogged [] w = (Inr [], w)"
| "processLogged (file # files) w =
     (let w1 = log (js ''  Reading: '' @ file) Cyan w in
      case processMarkdownFile w1 file of
        Inl e \<Rightarrow> (Inl e, w1)
      | Inr a \<Rightarrow>
          (case processLogged files w1 of
             (Inl e, w2) \<Rightarrow> (Inl e, w2)
           | (Inr as, w2) \<Rightarrow> (Inr (a # as), w2)))"

text \<open>
  \<^verbatim>\<open>function generateTypeScriptFiles(articles): void\<close>: the output directory is
  created if need be; one module is written per article, in the order of the list
  (\<^verbatim>\<open>fs.writeFileSync(path.join(OUTPUT_DATA_DIR, `${article.slug}.ts`), articleContent)\<close>,
  \<^verbatim>\<open>log(`  Generated: ${article.slug}.ts`, 'green')\<close>); then the index is written.
\<close>

fun writeArticles :: "article list \<Rightarrow> world \<Rightarrow> result" where
  "writeArticles [] w = Done w"
| "writeArticles (a # as) w =
     (case slugString a of
        Inl e \<Rightarrow> Throw e w
      | Inr s \<Rightarrow>
          (case writeOutput (s @ js ''.ts'') (articleText s a) w of
             Throw e w' \<Rightarrow> Throw e w'
           | Done w' \<Rightarrow> writeArticles as (log (js ''  Generated: '' @ s @ js ''.ts'') Green w')))"

definition writeIndex :: "article list \<Rightarrow> world \<Rightarrow> result" where
  "writeIndex articles w =
     (case indexContent articles of
        Inl e \<Rightarrow> Throw e w
      | Inr contents \<Rightarrow>
          (case writeOutput (js ''index.ts'') contents w of
             Throw e w' \<Rightarrow> Throw e w'
           | Done w' \<Rightarrow> Done (log (js ''  Generated: index.ts'') Green w')))"

definition generateTypeScriptFiles :: "article list \<Rightarrow> world \<Rightarrow> result" where
  "generateTypeScriptFiles articles w =
     (let w0 = (if outputDir w = None then w\<lparr>outputDir := Some []\<rparr> else w) in
      case writeArticles articles w0 of
        Throw e w' \<Rightarrow> Throw e w'
      | Done w' \<Rightarrow> writeIndex articles w')"

text \<open>The frames around the closing messages; 9552 and the like are box-drawing
  characters.\<close>

definition banner :: "jstring \<Rightarrow> color \<Rightarrow> world \<Rightarrow> world" where
  "banner message c w =
     log ([9562] @ replicate 42 9552 @ [9565]) c
       (log ([9553] @ message @ [9553]) c
          (log ([9556] @ replicate 42 9552 @ [9559]) c w))"

text \<open>
  \<^verbatim>\<open>async function build(target: 'all' | string): Promise<void>\<close>. The two early
  returns (no markdown file at all, no file for the target) print a red line and
  return; the function does not throw there.
\<close>

definition generateFor :: "jstring \<Rightarrow> jstring list \<Rightarrow> article list \<Rightarrow> world \<Rightarrow> result" where
  "generateFor target files articles w =
     (if target \<noteq> js ''all'' then
        (if readOutput w (js ''index.ts'') \<noteq> None then
           (case processFiles w files of
              Inl e \<Rightarrow> Throw e w
            | Inr allArticles \<Rightarrow> generateTypeScriptFiles allArticles w)
         else generateTypeScriptFiles articles w)
      else generateTypeScriptFiles articles w)"

definition build :: "jstring \<Rightarrow> world \<Rightarrow> result" where
  "build target w =
     (let w1 = logBlank (log (js ''Starting blog build...'') Bright (logBlank w)) in
      case getMarkdownFiles w1 of
        (files, w2) \<Rightarrow>
          if files = [] then Done (log (js ''No markdown files found!'') Red w2)
          else
            (let filesToProcess =
                   (if target = js ''all'' then files
                    else filter (\<lambda>f. basenameMd f = target) files)
             in if filesToProcess = [] then Done (log (js ''Article not found: '' @ target) Red w2)
                else
                  (case processLogged filesToProcess
                          (log (js ''Processing markdown files...'') Yellow w2) of
                     (Inl e, w3) \<Rightarrow> Throw e w3
                   | (Inr articles, w3) \<Rightarrow>
                       (case copyImages (log (js ''Copying images...'') Yellow (logBlank w3)) of
                          Throw e w4 \<Rightarrow> Throw e w4
                        | Done w4 \<Rightarrow>
                            (case generateFor target files articles
                                    (log (js ''Generating TypeScript files...'') Yellow
                                       (logBlank w4)) of
                               Throw e w5 \<Rightarrow> Throw e w5
                             | Done w5 \<Rightarrow>
                                 Done (logBlank
                                   (banner (js ''       Build completed successfully!      '')
                                      Green (logBlank w5))))))))"

text \<open>
  \<^verbatim>\<open>
  function getGeneratedArticles(): string[] {
    if (!fs.existsSync(OUTPUT_DATA_DIR)) { return [] }
    return fs.readdirSync(OUTPUT_DATA_DIR)
      .filter((file) => file.endsWith('.ts') && file !== 'index.ts')
      .map((file) => file.replace('.ts', ''))
  }
  \<close>
  The slugs that the script itself lists as generated articles (they are what
  \<^verbatim>\<open>promptDelete\<close> offers and accepts): the index module is not one of them.
  \<^verbatim>\<open>file.replace('.ts', '')\<close> removes the first occurrence of \<^verbatim>\<open>.ts\<close>.
\<close>

fun removeFirst :: "jstring \<Rightarrow> jstring \<Rightarrow> jstring" where
  "removeFirst p [] = []"
| "removeFirst p (c # cs) =
     (if startsWith (c # cs) p then drop (length p) (c # cs) else c # removeFirst p cs)"

definition getGeneratedArticles :: "world \<Rightarrow> jstring list" where
  "getGeneratedArticles w =
     (case outputDir w of
        None \<Rightarrow> []
      | Some es \<Rightarrow>
          map (\<lambda>file. removeFirst (js ''.ts'') file)
            (filter (\<lambda>file. endsWith file (js ''.ts'') \<and> file \<noteq> js ''index.ts'') (map fst es)))"

text \<open>
  \<^verbatim>\<open>async function deleteArticle(slug: string): Promise<void>\<close>:
  \<^verbatim>\<open>
    const articlePath = path.join(OUTPUT_DATA_DIR, `${slug}.ts`)
    if (!fs.existsSync(articlePath)) {
      log(`Article not found: ${slug}`, 'red')
      return
    }
    fs.unlinkSync(articlePath)
    log(`  Deleted: ${slug}.ts`, 'red')
    // Regenerate index from remaining markdown files
    const files = getMarkdownFiles()
    if (files.length === 0) {
      fs.writeFileSync(path.join(OUTPUT_DATA_DIR, 'index.ts'), emptyIndex)
      log('  Regenerated: index.ts (empty)', 'green')
    } else {
      const articles = files.map((file) => processMarkdownFile(file))
      generateTypeScriptFiles(articles)
    }
  \<close>
  followed by the closing frame.
\<close>

definition unlinkOutput :: "jstring \<Rightarrow> world \<Rightarrow> world" where
  "unlinkOutput name w = w\<lparr>outputDir := Some (AList.delete name (entries (outputDir w)))\<rparr>"

definition regenerate :: "world \<Rightarrow> result" where
  "regenerate w =
     (case getMarkdownFiles w of
        (files, w1) \<Rightarrow>
          if files = [] then
            (case writeOutput (js ''index.ts'') emptyIndex w1 of
               Throw e w2 \<Rightarrow> Throw e w2
             | Done w2 \<Rightarrow> Done (log (js ''  Regenerated: index.ts (empty)'') Green w2))
          else
            (case processFiles w1 files of
               Inl e \<Rightarrow> Throw e w1
             | Inr articles \<Rightarrow> generateTypeScriptFiles articles w1))"

definition deleteArticle :: "jstring \<Rightarrow> world \<Rightarrow> result" where
  "deleteArticle s w =
     (if readOutput w (s @ js ''.ts'') = None
      then Done (log (js ''Article not found: '' @ s) Red w)
      else
        (case regenerate (log (js ''  Deleted: '' @ s @ js ''.ts'') Red
                            (unlinkOutput (s @ js ''.ts'') w)) of
           Throw e w' \<Rightarrow> Throw e w'
         | Done w' \<Rightarrow>
             Done (logBlank
               (banner (js ''       Article deleted successfully!      '') Green (logBlank w')))))"

text \<open>
  \<^verbatim>\<open>async function main(): Promise<void>\<close> with the handler
  \<^verbatim>\<open>main().catch((error) => { log(`Error: ${error.message}`, 'red'); process.exit(1) })\<close>.
  The process ends with status 1 through \<^verbatim>\<open>process.exit(1)\<close> and with status 0 when
  \<^verbatim>\<open>main\<close> returns. The interactive modes (\<^verbatim>\<open>--delete\<close>, or no usable
  argument), which go through \<^verbatim>\<open>promptDelete\<close>, \<^verbatim>\<open>promptAction\<close> and
  \<^verbatim>\<open>promptUser\<close>, are not followed: \<open>Interactive\<close>.
\<close>

datatype outcome = Exit nat world | Interactive

definition run :: "result \<Rightarrow> outcome" where
  "run r =
     (case r of
        Done w \<Rightarrow> Exit 0 w
      | Throw e w \<Rightarrow> Exit 1 (w\<lparr>console := console w @ [Caught e]\<rparr>))"

text \<open>\<^verbatim>\<open>args[args.findIndex((a) => a === '-d' || a === '--delete-slug') + 1]\<close>, with
  \<open>None\<close> for \<^verbatim>\<open>undefined\<close>.\<close>

fun slugArgument :: "jstring list \<Rightarrow> jstring option" where
  "slugArgument [] = None"
| "slugArgument (a # as) =
     (if a = js ''-d'' \<or> a = js ''--delete-slug''
      then (case as of [] \<Rightarrow> None | s # _ \<Rightarrow> Some s)
      else slugArgument as)"

definition main :: "jstring list \<Rightarrow> world \<Rightarrow> outcome" where
  "main args w =
     (if js ''--delete'' \<in> set args then Interactive
      else if js ''-d'' \<in> set args \<or> js ''--delete-slug'' \<in> set args then
        (case slugArgument args of
           None \<Rightarrow> Exit 1 (log (js ''Please provide an article slug to delete'') Red w)
         | Some s \<Rightarrow>
             if s = [] \<or> startsWith s (js ''-'')
             then Exit 1 (log (js ''Please provide an article slug to delete'') Red w)
             else run (deleteArticle s w))
      else if js ''--all'' \<in> set args \<or> js ''-a'' \<in> set args then run (build (js ''all'') w)
      else
        (case args of
           [] \<Rightarrow> Interactive
         | a # _ \<Rightarrow>
             if \<not> startsWith a (js ''-'') then run (build a w)
             else Interactive))"

section \<open>What a run leaves in a directory\<close>

text \<open>
  Notions for the statements about the directories. The files that a run writes are a
  list of names with texts, written one after the other (\<open>applyWrites\<close>);
  \<open>lastWrite\<close> is the text that ends up under a name. \<open>moduleFiles\<close> are the article
  modules that \<open>generateTypeScriptFiles\<close> writes for articles with the given slugs,
  \<open>generatedFiles\<close> these and the index behind them, \<open>imageFiles\<close> the regular files
  of an images directory.
\<close>

definition applyWrites :: "('k \<times> 'v) list \<Rightarrow> ('k \<times> 'v) list \<Rightarrow> ('k \<times> 'v) list" where
  "applyWrites W es = fold (\<lambda>(k, v). AList.update k v) W es"

definition lastWrite :: "('k \<times> 'v) list \<Rightarrow> 'k \<Rightarrow> 'v \<Rightarrow> 'v" where
  "lastWrite W k x = (case map_of (rev W) k of Some v \<Rightarrow> v | None \<Rightarrow> x)"

definition moduleFiles :: "jstring list \<Rightarrow> article list \<Rightarrow> (jstring \<times> jstring) list" where
  "moduleFiles ss as = map (\<lambda>(s, a). (s @ js ''.ts'', articleText s a)) (zip ss as)"

definition generatedFiles :: "jstring list \<Rightarrow> article list \<Rightarrow> (jstring \<times> jstring) list" where
  "generatedFiles ss as = moduleFiles ss as @ [(js ''index.ts'', indexText ss as)]"

definition imageFiles :: "(jstring \<times> node) list \<Rightarrow> (jstring \<times> jstring) list" where
  "imageFiles imgs = concat (map (\<lambda>(n, x). case x of File c \<Rightarrow> [(n, c)] | Dir d \<Rightarrow> []) imgs)"

text \<open>Two states with the same files; the consoles may differ.\<close>

definition sameFiles :: "world \<Rightarrow> world \<Rightarrow> bool" where
  "sameFiles v w =
     (contentDir v = contentDir w \<and> outputDir v = outputDir w
      \<and> publicImagesDir v = publicImagesDir w \<and> contentDirPath v = contentDirPath w)"

text \<open>The markdown files whose frontmatter declares a slug: the sources of that slug.\<close>

definition sourcesOf :: "world \<Rightarrow> jstring \<Rightarrow> jstring list" where
  "sourcesOf w s =
     filter (\<lambda>f. case processMarkdownFile w f of
                   Inl e \<Rightarrow> False
                 | Inr a \<Rightarrow> slug a = Some (Scalar s))
       (fst (getMarkdownFiles w))"

text \<open>Whether a step returned, and the state it left.\<close>

definition finalState :: "result \<Rightarrow> world" where
  "finalState r = (case r of Done w \<Rightarrow> w | Throw e w \<Rightarrow> w)"


text \<open>
  For \<open>copyImages\<close>: whether the images path can be listed (it is not a regular file),
  and the public images directory after the copy.
\<close>

definition imagesOK :: "world \<Rightarrow> bool" where
  "imagesOK w =
     (case map_of (entries (contentDir w)) (js ''images'') of
        Some (File c) \<Rightarrow> False
      | _ \<Rightarrow> True)"

definition publicAfter :: "world \<Rightarrow> (jstring \<times> jstring) list option" where
  "publicAfter w =
     (case map_of (entries (contentDir w)) (js ''images'') of
        Some (Dir imgs) \<Rightarrow> Some (applyWrites (imageFiles imgs) (entries (publicImagesDir w)))
      | _ \<Rightarrow> publicImagesDir w)"

section \<open>List runs\<close>

text \<open>
  Notions for the statements about lists: the markdown line of an item with a given
  text, the fragment that the list-item pass makes of it, and the item texts the
  statements are about: free of line terminators (they are within one line) and free of
  the closing tag \<^verbatim>\<open></li>\<close>.
\<close>

definition itemLine :: "jstring \<Rightarrow> jstring" where
  "itemLine t = js ''- '' @ t"

definition itemFragment :: "jstring \<Rightarrow> jstring" where
  "itemFragment t = ITEM_OPEN @ t @ ITEM_CLOSE"

definition plainItem :: "jstring \<Rightarrow> bool" where
  "plainItem t = (list_all (\<lambda>c. \<not> isLineTerminator c) t \<and> \<not> includesStr t LI_CLOSE)"

section \<open>Example sites\<close>

text \<open>
  A markdown article with the slug \<^verbatim>\<open>hello-world\<close>, and two states of the
  directories: a site whose content directory holds no markdown file while a generated
  module and an index are left from before, and a site with the article as its only
  markdown file, beside an images directory.
\<close>

definition helloSource :: jstring where
  "helloSource =
     FM_OPEN @ js ''title: Hello'' @ [10] @ js ''slug: hello-world'' @ [10] @ js ''tags:'' @ [10]
       @ js ''  - faith'' @ FM_CLOSE @ js ''Hi *there*''"


definition helloSite :: world where
  "helloSite =
     \<lparr>contentDirPath = js ''/site/blog-content'',
      contentDir = Some [(js ''hello-world.md'', File helloSource),
                         (js ''images'', Dir [(js ''hello.png'', File (js ''PNG'')),
                                              (js ''drafts'', Dir [])])],
      outputDir = Some [(js ''hello-world.ts'', js ''stale''), (js ''index.ts'', js ''old index'')],
      publicImagesDir = None, console = []\<rparr>"

text \<open>
  A site whose only markdown file, \<^verbatim>\<open>foo.md\<close>, declares the slug \<^verbatim>\<open>bar\<close>, with a
  module \<^verbatim>\<open>foo.ts\<close> in the output directory.
\<close>

definition renamedSite :: world where
  "renamedSite =
     \<lparr>contentDirPath = js ''/site/blog-content'',
      contentDir = Some [(js ''foo.md'', File (FM_OPEN @ js ''slug: bar'' @ FM_CLOSE @ js ''Hi''))],
      outputDir = Some [(js ''foo.ts'', js ''stale''), (js ''index.ts'', js ''old index'')],
      publicImagesDir = None, console = []\<rparr>"

text \<open>What \<open>processMarkdownFile\<close> makes of the markdown file of \<open>renamedSite\<close>.\<close>

definition barArticle :: article where
  "barArticle =
     \<lparr>slug = Some (Scalar (js ''bar'')),
      meta = [(js ''slug'', Scalar (js ''bar'')), (js ''tags'', Items [])],
      html = P_OPEN @ js ''Hi'' @ P_CLOSE\<rparr>"

text \<open>An article whose body holds a backslash: the Windows path \<^verbatim>\<open>C:\new\<close>.\<close>

definition pathSource :: jstring where
  "pathSource = FM_OPEN @ js ''slug: paths'' @ FM_CLOSE @ js ''C:'' @ [92] @ js ''new''"

text \<open>An article whose body is a line of markup that ends with a backslash.\<close>

definition trailingSource :: jstring where
  "trailingSource = FM_OPEN @ js ''slug: trailing'' @ FM_CLOSE @ js ''<b>'' @ [92]"

text \<open>What \<open>processMarkdownFile\<close> makes of \<open>helloSource\<close>.\<close>

definition helloArticle :: article where
  "helloArticle =
     \<lparr>slug = Some (Scalar (js ''hello-world'')),
      meta = [(js ''title'', Scalar (js ''Hello'')), (js ''slug'', Scalar (js ''hello-world'')),
              (js ''tags'', Items [js ''faith''])],
      html = P_OPEN @ js ''Hi '' @ EM_OPEN @ js ''there'' @ EM_CLOSE @ P_CLOSE\<rparr>"

section \<open>Properties\<close>

lemma replaceChar_Nil: "replaceChar c r [] = []"
  by (simp add: replaceChar_def)

lemma replaceChar_Cons:
  "replaceChar c r (x # xs) = (if x = c then r else [x]) @ replaceChar c r xs"
  by (simp add: replaceChar_def)

lemma escapeTemplate_Nil: "escapeTemplate [] = []"
  by (simp add: escapeTemplate_def replaceChar_Nil)

lemma escapeTemplate_Cons:
  "escapeTemplate (x # xs) =
     (if x = 96 then [92, 96] else if x = 36 then [92, 36] else [x]) @ escapeTemplate xs"
  by (simp add: escapeTemplate_def replaceChar_Cons replaceChar_Nil)

text \<open>
  What the escaping does achieve: markup without a backslash and without a carriage
  return is read back unchanged, whatever follows the closing backtick.
\<close>

lemma readTemplate_escapeTemplate:
  "92 \<notin> set s \<Longrightarrow> 13 \<notin> set s \<Longrightarrow>
   readTemplate (escapeTemplate s @ 96 # rest) = Some (s, rest)"
proof (induction s)
  case Nil
  show ?case by (simp add: escapeTemplate_Nil)
next
  case (Cons x xs)
  then have ih: "readTemplate (escapeTemplate xs @ 96 # rest) = Some (xs, rest)"
    and x: "x \<noteq> 92" "x \<noteq> 13"
    by auto
  have ne: "escapeTemplate xs @ 96 # rest \<noteq> []" by simp
  then obtain d ds where dds: "escapeTemplate xs @ 96 # rest = d # ds"
    by (cases "escapeTemplate xs @ 96 # rest") auto
  show ?case
  proof (cases "x = 96 \<or> x = 36")
    case True
    then show ?thesis
      using ih dds
      by (auto simp: escapeTemplate_Cons escapeValue_def consValue_def isLineTerminator_def)
  next
    case False
    then show ?thesis
      using ih x
      by (simp add: escapeTemplate_Cons consValue_def)
  qed
qed

subsection \<open>Strings and patterns\<close>

lemma startsWith_iff: "startsWith s p \<longleftrightarrow> (\<exists>r. s = p @ r)"
  by (induction s p rule: startsWith.induct) auto

lemma startsWith_append: "startsWith (p @ r) p"
  by (simp add: startsWith_iff)

lemma startsWith_drop: "startsWith s p \<Longrightarrow> p @ drop (length p) s = s"
  by (auto simp: startsWith_iff)

lemma splitAtFirst_Some:
  "splitAtFirst stop p s = Some (a, b) \<Longrightarrow> s = a @ p @ b"
proof (induction s arbitrary: a)
  case Nil
  then show ?case by (simp split: if_splits)
next
  case (Cons c cs)
  show ?case
  proof (cases "startsWith (c # cs) p")
    case True
    with Cons.prems have "a = []" "b = drop (length p) (c # cs)" by auto
    with True show ?thesis using startsWith_drop [of "c # cs" p] by simp
  next
    case False
    with Cons.prems obtain a' where "splitAtFirst stop p cs = Some (a', b)" "a = c # a'"
      by (auto split: if_splits)
    with Cons.IH show ?thesis by simp
  qed
qed

lemma splitAtFirst_None:
  "splitAtFirst (\<lambda>c. False) p s = None \<Longrightarrow> s \<noteq> a @ p @ b"
proof (induction s arbitrary: a)
  case Nil
  then show ?case by (simp split: if_splits)
next
  case (Cons c cs)
  from Cons.prems have ns: "\<not> startsWith (c # cs) p"
    and rec: "splitAtFirst (\<lambda>c. False) p cs = None"
    by (auto split: if_splits)
  show ?case
  proof
    assume eq: "c # cs = a @ p @ b"
    show False
    proof (cases a)
      case Nil
      with eq ns show False by (simp add: startsWith_iff)
    next
      case (Cons x a')
      with eq have "cs = a' @ p @ b" by simp
      with Cons.IH [OF rec] show False by blast
    qed
  qed
qed

lemma matchFrontmatter_None_iff:
  "matchFrontmatter content = None \<longleftrightarrow> (\<nexists>h b. content = FM_OPEN @ h @ FM_CLOSE @ b)"
proof
  assume none: "matchFrontmatter content = None"
  show "\<nexists>h b. content = FM_OPEN @ h @ FM_CLOSE @ b"
  proof
    assume "\<exists>h b. content = FM_OPEN @ h @ FM_CLOSE @ b"
    then obtain h b where c: "content = FM_OPEN @ h @ FM_CLOSE @ b" by blast
    then have "splitAtFirst (\<lambda>c. False) FM_CLOSE (h @ FM_CLOSE @ b) = None"
      using none by (simp add: matchFrontmatter_def startsWith_append)
    from splitAtFirst_None [OF this] show False by blast
  qed
next
  assume no: "\<nexists>h b. content = FM_OPEN @ h @ FM_CLOSE @ b"
  show "matchFrontmatter content = None"
  proof (rule ccontr)
    assume "matchFrontmatter content \<noteq> None"
    then obtain h b where m: "matchFrontmatter content = Some (h, b)" by auto
    then have sw: "startsWith content FM_OPEN"
      and sp: "splitAtFirst (\<lambda>c. False) FM_CLOSE (drop (length FM_OPEN) content) = Some (h, b)"
      by (auto simp: matchFrontmatter_def split: if_splits)
    from splitAtFirst_Some [OF sp] startsWith_drop [OF sw]
    have "content = FM_OPEN @ h @ FM_CLOSE @ b" by simp
    with no show False by blast
  qed
qed

lemma ensureTags_tags:
  "\<exists>ts. getField (ensureTags fm) (js ''tags'') = Some (Items ts)"
  by (simp add: ensureTags_def getField_def setField_def update_conv'
           split: option.splits fmval.splits)

lemma matchFrontmatter_Some:
  assumes "matchFrontmatter content = Some (h, b)"
  shows "content = FM_OPEN @ h @ FM_CLOSE @ b"
proof -
  from assms have sw: "startsWith content FM_OPEN"
    and sp: "splitAtFirst (\<lambda>c. False) FM_CLOSE (drop (length FM_OPEN) content) = Some (h, b)"
    by (auto simp: matchFrontmatter_def split: if_splits)
  from splitAtFirst_Some [OF sp] startsWith_drop [OF sw]
  show ?thesis by simp
qed

subsection \<open>The frontmatter parser fails exactly without a delimiter pair\<close>

lemma splitAtFirst_first:
  "splitAtFirst (\<lambda>c. False) p s = Some (a, b) \<Longrightarrow> s = a' @ p @ b' \<Longrightarrow> length a \<le> length a'"
proof (induction s arbitrary: a a')
  case Nil
  then show ?case by (simp split: if_splits)
next
  case (Cons c cs)
  show ?case
  proof (cases "startsWith (c # cs) p")
    case True
    with Cons.prems(1) show ?thesis by simp
  next
    case False
    with Cons.prems(1) obtain a0 where a0: "splitAtFirst (\<lambda>c. False) p cs = Some (a0, b)"
      and a: "a = c # a0"
      by (auto split: if_splits)
    show ?thesis
    proof (cases a')
      case Nil
      with Cons.prems(2) False show ?thesis by (simp add: startsWith_iff)
    next
      case (Cons x a'')
      with Cons.prems(2) have "cs = a'' @ p @ b'" by simp
      from Cons.IH [OF a0 this] a Cons show ?thesis by simp
    qed
  qed
qed

lemma matchFrontmatter_first:
  assumes "matchFrontmatter content = Some (h, b)"
    and "content = FM_OPEN @ h' @ FM_CLOSE @ b'"
  shows "length h \<le> length h'"
proof -
  from assms(1) have sp:
    "splitAtFirst (\<lambda>c. False) FM_CLOSE (drop (length FM_OPEN) content) = Some (h, b)"
    by (auto simp: matchFrontmatter_def split: if_splits)
  from assms(2) have "drop (length FM_OPEN) content = h' @ FM_CLOSE @ b'" by simp
  with sp show ?thesis by (rule splitAtFirst_first)
qed

text \<open>
  Claim C5, as the script has it. \<open>parseFrontmatter\<close> throws exactly when the text is
  not of the form that its regular expression asks for: the line \<^verbatim>\<open>---\<close> with its
  line feed (\<open>FM_OPEN\<close>), a header, then a line feed, \<^verbatim>\<open>---\<close> and a line feed
  (\<open>FM_CLOSE\<close>), then the body. An error is thrown if and only if the text cannot be
  cut in this way, and the error is the format error and no other. A text that can be
  cut in this way is cut at its first closing delimiter (the header is the shortest
  possible one), and the result is the record that \<open>parseHeader\<close> reads from that
  header, in which \<^verbatim>\<open>tags\<close> is always a list, together with the trimmed text behind
  that closing delimiter; two texts show the record and the body. (With a delimiter pair read as two \<^verbatim>\<open>---\<close> lines the
  claim fails: see the counterexample.)
\<close>

theorem parseFrontmatter_FormatError_iff:
  "((\<exists>e. parseFrontmatter content = Inl e) \<longleftrightarrow> (\<nexists>h b. content = FM_OPEN @ h @ FM_CLOSE @ b))
   \<and> (\<forall>e. parseFrontmatter content = Inl e \<longrightarrow> e = FormatError)
   \<and> ((\<exists>h b. content = FM_OPEN @ h @ FM_CLOSE @ b)
        \<longrightarrow> (\<exists>h b. content = FM_OPEN @ h @ FM_CLOSE @ b
              \<and> (\<forall>h' b'. content = FM_OPEN @ h' @ FM_CLOSE @ b' \<longrightarrow> length h \<le> length h')
              \<and> parseFrontmatter content = Inr (parseHeader h, trim b)))
   \<and> (\<forall>h. \<exists>ts. getField (parseHeader h) (js ''tags'') = Some (Items ts))
   \<and> parseFrontmatter helloSource
       = Inr ([(js ''title'', Scalar (js ''Hello'')), (js ''slug'', Scalar (js ''hello-world'')),
               (js ''tags'', Items [js ''faith''])],
              js ''Hi *there*'')
   \<and> parseFrontmatter (FM_OPEN @ js ''slug: a'' @ FM_CLOSE @ js '' x'' @ FM_CLOSE @ js ''y '')
       = Inr ([(js ''slug'', Scalar (js ''a'')), (js ''tags'', Items [])],
              js ''x'' @ FM_CLOSE @ js ''y'')"
proof -
  have a: "(\<exists>e. parseFrontmatter content = Inl e) \<longleftrightarrow> matchFrontmatter content = None"
    by (auto simp: parseFrontmatter_def split: option.splits)
  have b: "\<forall>e. parseFrontmatter content = Inl e \<longrightarrow> e = FormatError"
    by (auto simp: parseFrontmatter_def split: option.splits)
  have d: "matchFrontmatter content = None \<longleftrightarrow> (\<nexists>h b. content = FM_OPEN @ h @ FM_CLOSE @ b)"
    by (rule matchFrontmatter_None_iff)
  have 1: "(\<exists>e. parseFrontmatter content = Inl e) \<longleftrightarrow> (\<nexists>h b. content = FM_OPEN @ h @ FM_CLOSE @ b)"
    using a d by simp
  have 3: "(\<exists>h b. content = FM_OPEN @ h @ FM_CLOSE @ b)
        \<longrightarrow> (\<exists>h b. content = FM_OPEN @ h @ FM_CLOSE @ b
              \<and> (\<forall>h' b'. content = FM_OPEN @ h' @ FM_CLOSE @ b' \<longrightarrow> length h \<le> length h')
              \<and> parseFrontmatter content = Inr (parseHeader h, trim b))"
  proof
    assume "\<exists>h b. content = FM_OPEN @ h @ FM_CLOSE @ b"
    with d have "matchFrontmatter content \<noteq> None" by simp
    then obtain h b where m: "matchFrontmatter content = Some (h, b)" by auto
    from m have c: "content = FM_OPEN @ h @ FM_CLOSE @ b"
      by (rule matchFrontmatter_Some)
    from m have f: "\<forall>h' b'. content = FM_OPEN @ h' @ FM_CLOSE @ b' \<longrightarrow> length h \<le> length h'"
      using matchFrontmatter_first by blast
    from m have p: "parseFrontmatter content = Inr (parseHeader h, trim b)"
      by (simp add: parseFrontmatter_def)
    from c f p show "\<exists>h b. content = FM_OPEN @ h @ FM_CLOSE @ b
              \<and> (\<forall>h' b'. content = FM_OPEN @ h' @ FM_CLOSE @ b' \<longrightarrow> length h \<le> length h')
              \<and> parseFrontmatter content = Inr (parseHeader h, trim b)"
      by blast
  qed
  have 4: "parseFrontmatter helloSource
       = Inr ([(js ''title'', Scalar (js ''Hello'')), (js ''slug'', Scalar (js ''hello-world'')),
               (js ''tags'', Items [js ''faith''])],
              js ''Hi *there*'')"
    by code_simp
  have 5: "parseFrontmatter (FM_OPEN @ js ''slug: a'' @ FM_CLOSE @ js '' x'' @ FM_CLOSE @ js ''y '')
       = Inr ([(js ''slug'', Scalar (js ''a'')), (js ''tags'', Items [])],
              js ''x'' @ FM_CLOSE @ js ''y'')"
    by code_simp
  have 6: "\<forall>h. \<exists>ts. getField (parseHeader h) (js ''tags'') = Some (Items ts)"
    by (simp add: parseHeader_def Let_def ensureTags_tags)
  from 1 b 3 6 4 5 show ?thesis by (intro conjI)
qed

theorem parseFrontmatter_FormatError_iff_witness:
  "parseFrontmatter (js ''# no header'') = Inl FormatError
   \<and> (\<exists>h b. FM_OPEN @ js ''slug: hello'' @ FM_CLOSE @ js ''Hi'' = FM_OPEN @ h @ FM_CLOSE @ b
          \<and> (\<forall>h' b'. FM_OPEN @ js ''slug: hello'' @ FM_CLOSE @ js ''Hi'' = FM_OPEN @ h' @ FM_CLOSE @ b'
                 \<longrightarrow> length h \<le> length h')
          \<and> parseFrontmatter (FM_OPEN @ js ''slug: hello'' @ FM_CLOSE @ js ''Hi'')
              = Inr (parseHeader h, trim b))"
proof -
  have 1: "parseFrontmatter (js ''# no header'') = Inl FormatError"
    by code_simp
  have "\<exists>h b. FM_OPEN @ js ''slug: hello'' @ FM_CLOSE @ js ''Hi'' = FM_OPEN @ h @ FM_CLOSE @ b"
    by blast
  then have 2: "\<exists>h b. FM_OPEN @ js ''slug: hello'' @ FM_CLOSE @ js ''Hi'' = FM_OPEN @ h @ FM_CLOSE @ b
          \<and> (\<forall>h' b'. FM_OPEN @ js ''slug: hello'' @ FM_CLOSE @ js ''Hi'' = FM_OPEN @ h' @ FM_CLOSE @ b'
                 \<longrightarrow> length h \<le> length h')
          \<and> parseFrontmatter (FM_OPEN @ js ''slug: hello'' @ FM_CLOSE @ js ''Hi'')
              = Inr (parseHeader h, trim b)"
    using parseFrontmatter_FormatError_iff [of "FM_OPEN @ js ''slug: hello'' @ FM_CLOSE @ js ''Hi''"]
    by blast
  from 1 2 show ?thesis by (rule conjI)
qed

theorem parseFrontmatter_FormatError_iff_counterexample:
  "parseFrontmatter (js ''---'' @ [10] @ js ''slug: a'' @ [10] @ js ''---'') = Inl FormatError
   \<and> parseFrontmatter (js ''---'' @ [10] @ js ''---'' @ [10] @ js ''Body'') = Inl FormatError
   \<and> parseFrontmatter (js ''---'' @ [13, 10] @ js ''slug: a'' @ [13, 10] @ js ''---'' @ [13, 10]
                         @ js ''Body'')
       = Inl FormatError"
  by code_simp

subsection \<open>Console lines leave the files alone\<close>

lemma log_fields [simp]:
  "contentDir (log m c w) = contentDir w"
  "outputDir (log m c w) = outputDir w"
  "publicImagesDir (log m c w) = publicImagesDir w"
  "contentDirPath (log m c w) = contentDirPath w"
  "console (log m c w) = console w @ [Line c m]"
  by (simp_all add: log_def)

lemma logBlank_fields [simp]:
  "contentDir (logBlank w) = contentDir w"
  "outputDir (logBlank w) = outputDir w"
  "publicImagesDir (logBlank w) = publicImagesDir w"
  "contentDirPath (logBlank w) = contentDirPath w"
  "console (logBlank w) = console w @ [Blank]"
  by (simp_all add: logBlank_def)

lemma banner_fields [simp]:
  "contentDir (banner m c w) = contentDir w"
  "outputDir (banner m c w) = outputDir w"
  "publicImagesDir (banner m c w) = publicImagesDir w"
  "contentDirPath (banner m c w) = contentDirPath w"
  by (simp_all add: banner_def)

lemma readOutput_log [simp]:
  "readOutput (log m c w) = readOutput w"
  "readOutput (logBlank w) = readOutput w"
  "readOutput (banner m c' w) = readOutput w"
  by (simp_all add: readOutput_def fun_eq_iff)

lemma unlinkOutput_fields [simp]:
  "contentDir (unlinkOutput n w) = contentDir w"
  "outputDir (unlinkOutput n w) = Some (AList.delete n (entries (outputDir w)))"
  "publicImagesDir (unlinkOutput n w) = publicImagesDir w"
  "contentDirPath (unlinkOutput n w) = contentDirPath w"
  "console (unlinkOutput n w) = console w"
  by (simp_all add: unlinkOutput_def)

lemma getMarkdownFiles_snd [simp]:
  "contentDir (snd (getMarkdownFiles w)) = contentDir w"
  "outputDir (snd (getMarkdownFiles w)) = outputDir w"
  "publicImagesDir (snd (getMarkdownFiles w)) = publicImagesDir w"
  "contentDirPath (snd (getMarkdownFiles w)) = contentDirPath w"
  by (simp_all add: getMarkdownFiles_def split: option.splits)

lemma getMarkdownFiles_fst:
  "contentDir v = contentDir w \<Longrightarrow> fst (getMarkdownFiles v) = fst (getMarkdownFiles w)"
  by (simp add: getMarkdownFiles_def split: option.splits)

lemma getMarkdownFiles_nonempty:
  "fst (getMarkdownFiles w) \<noteq> [] \<Longrightarrow> snd (getMarkdownFiles w) = w"
  by (auto simp add: getMarkdownFiles_def split: option.splits)

lemma writeOutput_Some:
  "outputDir w = Some es \<Longrightarrow>
   writeOutput n t w = Done (w\<lparr>outputDir := Some (AList.update n t es)\<rparr>)"
  by (simp add: writeOutput_def)

subsection \<open>Deleting a slug that has no generated module\<close>

text \<open>
  When the output directory holds no file \<^verbatim>\<open><slug>.ts\<close>, \<open>deleteArticle\<close> returns
  with the state it was given and one more console line, the red
  \<^verbatim>\<open>Article not found: <slug>\<close>: the index, every generated module, the markdown
  files and the public images are as before.
\<close>

lemma deleteArticle_without_file:
  "readOutput w (s @ js ''.ts'') = None \<Longrightarrow>
   deleteArticle s w
     = Done (w\<lparr>console := console w @ [Line Red (js ''Article not found: '' @ s)]\<rparr>)"
  by (simp add: deleteArticle_def log_def)

text \<open>
  Claim C4 at the slug \<^verbatim>\<open>index\<close>, on the site \<open>helloSite\<close>. The slug has no
  generated module: the script's own listing of the generated articles
  (\<open>getGeneratedArticles\<close>) holds \<^verbatim>\<open>hello-world\<close> alone. Yet \<open>deleteArticle\<close>
  finds the file \<^verbatim>\<open>index.ts\<close>, which is the index module, removes it and
  regenerates: it returns normally, the console starts with
  \<^verbatim>\<open>Deleted: index.ts\<close> and the lines of the generator and holds no line
  \<^verbatim>\<open>Article not found: index\<close>, the index and the module of \<^verbatim>\<open>hello-world\<close>
  are written anew, so the output directory is not what it was, and the process ends
  with status 0.
\<close>

theorem deleteArticle_index_slug:
  "getGeneratedArticles helloSite = [js ''hello-world'']
   \<and> js ''index'' \<notin> set (getGeneratedArticles helloSite)
   \<and> readOutput helloSite (js ''index'' @ js ''.ts'') = Some (js ''old index'')
   \<and> deleteArticle (js ''index'') helloSite = Done (finalState (deleteArticle (js ''index'') helloSite))
   \<and> take 3 (console (finalState (deleteArticle (js ''index'') helloSite)))
       = [Line Red (js ''  Deleted: index.ts''), Line Green (js ''  Generated: hello-world.ts''),
          Line Green (js ''  Generated: index.ts'')]
   \<and> Line Red (js ''Article not found: index'') \<notin> set (console (finalState (deleteArticle (js ''index'') helloSite)))
   \<and> outputDir (finalState (deleteArticle (js ''index'') helloSite))
       = Some [(js ''hello-world.ts'', articleText (js ''hello-world'') helloArticle),
               (js ''index.ts'', indexText [js ''hello-world''] [helloArticle])]
   \<and> outputDir helloSite
       = Some [(js ''hello-world.ts'', js ''stale''), (js ''index.ts'', js ''old index'')]
   \<and> outputDir (finalState (deleteArticle (js ''index'') helloSite)) \<noteq> outputDir helloSite
   \<and> main [js ''-d'', js ''index''] helloSite = Exit 0 (finalState (deleteArticle (js ''index'') helloSite))"
  by code_simp

subsection \<open>Deleting the last article\<close>



subsection \<open>A slug without a module or without a markdown file\<close>

lemma no_file_for_target:
  assumes "s \<notin> basenameMd ` set (fst (getMarkdownFiles w))"
  shows "filter (\<lambda>f. basenameMd f = s) (fst (getMarkdownFiles w)) = []"
proof -
  have "\<And>f. f \<in> set (fst (getMarkdownFiles w)) \<Longrightarrow> basenameMd f \<noteq> s"
    using assms by (rule contrapos_nn) (rule image_eqI [OF sym])
  then show ?thesis by (simp add: filter_empty_conv)
qed

lemma build_start:
  "fst (getMarkdownFiles (logBlank (log (js ''Starting blog build...'') Bright (logBlank w))))
     = fst (getMarkdownFiles w)"
  by (rule getMarkdownFiles_fst) simp

lemma build_not_found:
  assumes "s \<noteq> js ''all''" "fst (getMarkdownFiles w) \<noteq> []"
    "s \<notin> basenameMd ` set (fst (getMarkdownFiles w))"
  shows "build s w = Done (log (js ''Article not found: '' @ s) Red
           (logBlank (log (js ''Starting blog build...'') Bright (logBlank w))))"
proof -
  let ?w1 = "logBlank (log (js ''Starting blog build...'') Bright (logBlank w))"
  have f: "fst (getMarkdownFiles ?w1) = fst (getMarkdownFiles w)"
    by (rule build_start)
  with assms(2) have s: "snd (getMarkdownFiles ?w1) = ?w1"
    using getMarkdownFiles_nonempty [of ?w1] by simp
  have g: "getMarkdownFiles ?w1 = (fst (getMarkdownFiles w), ?w1)"
    using f s by (metis prod.collapse)
  show ?thesis
    using assms(1,2) no_file_for_target [OF assms(3)]
    by (simp add: build_def g Let_def)
qed

lemma build_no_files:
  assumes "fst (getMarkdownFiles w) = []"
  shows "build s w = Done (log (js ''No markdown files found!'') Red
           (snd (getMarkdownFiles
              (logBlank (log (js ''Starting blog build...'') Bright (logBlank w))))))"
proof -
  let ?w1 = "logBlank (log (js ''Starting blog build...'') Bright (logBlank w))"
  obtain w2 where g: "getMarkdownFiles ?w1 = ([], w2)"
    using build_start [of w] assms by (cases "getMarkdownFiles ?w1") simp
  then show ?thesis by (simp add: build_def Let_def)
qed




subsection \<open>Backslashes in the markup are not escaped\<close>

lemma articleText_literal:
  "articleText s a = moduleHead s a @ [96] @ escapeTemplate (html a) @ [96] @ moduleTail s"
  by (simp add: articleText_def moduleHead_def moduleTail_def unlinesJS_def)

text \<open>
  Claim C2 at the articles \<open>pathSource\<close> and \<open>trailingSource\<close>. The markup of the
  first is the paragraph \<^verbatim>\<open>C:\new\<close>. \<open>escapeTemplate\<close> returns the markup as it
  is, with the backslash unescaped, and the runtime reads the literal of the generated
  module as the paragraph \<^verbatim>\<open>C:\<close>, line feed, \<^verbatim>\<open>ew\<close>: the markup does not come
  back. The markup of the second ends with a backslash, which is left unescaped as well;
  in the module it stands before the closing backtick, so the literal is not closed
  there, and the rest of the module holds no other backtick: the literal never ends.
\<close>

theorem escapeTemplate_keeps_backslash:
  "processContent pathSource
     = Inr \<lparr>slug = Some (Scalar (js ''paths'')),
            meta = [(js ''slug'', Scalar (js ''paths'')), (js ''tags'', Items [])],
            html = P_OPEN @ js ''C:'' @ [92] @ js ''new'' @ P_CLOSE\<rparr>
   \<and> escapeTemplate (P_OPEN @ js ''C:'' @ [92] @ js ''new'' @ P_CLOSE)
       = P_OPEN @ js ''C:'' @ [92] @ js ''new'' @ P_CLOSE
   \<and> readTemplate (escapeTemplate (P_OPEN @ js ''C:'' @ [92] @ js ''new'' @ P_CLOSE)
                     @ [96] @ moduleTail (js ''paths''))
       = Some (P_OPEN @ js ''C:'' @ [10] @ js ''ew'' @ P_CLOSE, moduleTail (js ''paths''))
   \<and> processContent trailingSource
     = Inr \<lparr>slug = Some (Scalar (js ''trailing'')),
            meta = [(js ''slug'', Scalar (js ''trailing'')), (js ''tags'', Items [])],
            html = js ''<b>'' @ [92]\<rparr>
   \<and> escapeTemplate (js ''<b>'' @ [92]) = js ''<b>'' @ [92]
   \<and> readTemplate (escapeTemplate (js ''<b>'' @ [92]) @ [96] @ moduleTail (js ''trailing'')) = None
   \<and> 96 \<notin> set (moduleTail (js ''trailing''))"
  by code_simp

subsection \<open>Every pass before the list wrapping works line by line\<close>

lemma startsWith_length: "startsWith s p \<Longrightarrow> length p \<le> length s"
  by (auto simp: startsWith_iff)

lemma drop_append_short: "n \<le> length xs \<Longrightarrow> drop n (xs @ ys) = drop n xs @ ys"
  by simp

lemma mapLinesFrom_append:
  "isLineTerminator t \<Longrightarrow>
   mapLinesFrom f acc (a @ t # b) = mapLinesFrom f acc a @ t # mapLinesFrom f [] b"
  by (induction a arbitrary: acc) auto

lemma replaceLinePrefix_append:
  "isLineTerminator t \<Longrightarrow>
   replaceLinePrefix p opn cls (a @ t # b)
     = replaceLinePrefix p opn cls a @ t # replaceLinePrefix p opn cls b"
  by (simp add: replaceLinePrefix_def mapLines_def mapLinesFrom_append)

lemma startsWith_before:
  "t \<notin> set d \<Longrightarrow> startsWith (a @ t # b) d = startsWith a d"
  by (induction a d rule: startsWith.induct) auto

lemma splitAtFirst_before:
  assumes "stop t" "t \<notin> set d" "d \<noteq> []"
  shows "splitAtFirst stop d (x @ t # b)
           = map_option (\<lambda>(i, r). (i, r @ t # b)) (splitAtFirst stop d x)"
proof (induction x)
  case Nil
  from assms have "\<not> startsWith (t # b) d"
    using startsWith_before [of t d "[]" b] by (cases d) auto
  with assms show ?case by simp
next
  case (Cons c cs)
  have sw: "startsWith ((c # cs) @ t # b) d = startsWith (c # cs) d"
    using assms(2) by (rule startsWith_before)
  show ?case
  proof (cases "startsWith (c # cs) d")
    case True
    then have "length d \<le> length (c # cs)" by (rule startsWith_length)
    then have "drop (length d) ((c # cs) @ t # b) = drop (length d) (c # cs) @ t # b"
      by (rule drop_append_short)
    with True sw show ?thesis by simp
  next
    case False
    with sw have f: "\<not> startsWith (c # (cs @ t # b)) d" by simp
    show ?thesis
      using False f Cons.IH
      by (cases "splitAtFirst stop d cs") (auto simp del: startsWith.simps)
  qed
qed

lemma matchDelimited_before:
  assumes "isLineTerminator t" "t \<notin> set d" "d \<noteq> []"
  shows "matchDelimited d opn cls (s @ t # b)
           = (case matchDelimited d opn cls s of
                None \<Rightarrow> None
              | Some (r, rest) \<Rightarrow> Some (r, rest @ t # b))"
proof (cases "startsWith s d")
  case True
  then have "length d \<le> length s" by (rule startsWith_length)
  then have "drop (length d) (s @ t # b) = drop (length d) s @ t # b" by simp
  with True assms show ?thesis
    by (simp add: matchDelimited_def startsWith_before splitAtFirst_before
        split: option.splits)
next
  case False
  with assms show ?thesis
    by (simp add: matchDelimited_def startsWith_before)
qed

lemma replaceAll_before:
  assumes loc: "\<And>s. m (s @ t # b)
                  = (case m s of None \<Rightarrow> None | Some (r, rest) \<Rightarrow> Some (r, rest @ t # b))"
  shows "replaceAll m (a @ t # b) = replaceAll m a @ t # replaceAll m b"
proof (induction a rule: length_induct)
  case (1 a)
  show ?case
  proof (cases a)
    case Nil
    have "m (t # b) = (case m [] of None \<Rightarrow> None | Some (r, rest) \<Rightarrow> Some (r, rest @ t # b))"
      using loc [of "[]"] by simp
    then show ?thesis
      using Nil by (auto split: option.splits)
  next
    case (Cons c cs)
    have l: "m (c # cs @ t # b)
         = (case m (c # cs) of None \<Rightarrow> None | Some (r, rest) \<Rightarrow> Some (r, rest @ t # b))"
      using loc [of "c # cs"] by simp
    show ?thesis
    proof (cases "m (c # cs)")
      case None
      with l have "m (c # cs @ t # b) = None" by simp
      moreover have "replaceAll m (cs @ t # b) = replaceAll m cs @ t # replaceAll m b"
        using "1.IH" Cons by simp
      ultimately show ?thesis using None Cons by simp
    next
      case (Some p)
      obtain r rest where p: "p = (r, rest)" by (cases p)
      with Some l have ml: "m (c # cs @ t # b) = Some (r, rest @ t # b)" by simp
      show ?thesis
      proof (cases "length rest < length (c # cs)")
        case True
        then have "replaceAll m (rest @ t # b) = replaceAll m rest @ t # replaceAll m b"
          using "1.IH" Cons by simp
        with True Some p ml Cons show ?thesis by simp
      next
        case False
        have "replaceAll m (cs @ t # b) = replaceAll m cs @ t # replaceAll m b"
          using "1.IH" Cons by simp
        with False Some p ml Cons show ?thesis by simp
      qed
    qed
  qed
qed

lemma lt_not_asterisk: "isLineTerminator t \<Longrightarrow> t \<noteq> 42"
  by (auto simp: isLineTerminator_def)

lemma tripleEmphasis_before:
  "isLineTerminator t \<Longrightarrow> tripleEmphasis (a @ t # b) = tripleEmphasis a @ t # tripleEmphasis b"
  unfolding tripleEmphasis_def
  by (rule replaceAll_before, rule matchDelimited_before) (auto dest: lt_not_asterisk)

lemma doubleEmphasis_before:
  "isLineTerminator t \<Longrightarrow> doubleEmphasis (a @ t # b) = doubleEmphasis a @ t # doubleEmphasis b"
  unfolding doubleEmphasis_def
  by (rule replaceAll_before, rule matchDelimited_before) (auto dest: lt_not_asterisk)

lemma singleEmphasis_before:
  "isLineTerminator t \<Longrightarrow> singleEmphasis (a @ t # b) = singleEmphasis a @ t # singleEmphasis b"
  unfolding singleEmphasis_def
  by (rule replaceAll_before, rule matchDelimited_before) (auto dest: lt_not_asterisk)

lemma listItems_before:
  "isLineTerminator t \<Longrightarrow> listItems (a @ t # b) = listItems a @ t # listItems b"
  by (simp add: listItems_def replaceLinePrefix_append)

text \<open>
  Claim C10, as the script has it. No emphasis match contains a line terminator: each
  of the three emphasis passes, and so their composition, rewrites a text line by line
  (the result on two texts joined by a line terminator is the two results joined by that
  terminator). So the text between two markers on different lines is never enclosed in
  an emphasis element. The header, blockquote and list-item passes work line by line in
  the same sense. What does not hold is that a span whose markers are on different lines
  is left as it is: the markers can be rewritten within their own lines, as the
  counterexample shows (two asterisks are a single-emphasis match with nothing in
  between).
\<close>

theorem passes_line_by_line:
  assumes "isLineTerminator t"
  shows "tripleEmphasis (a @ t # b) = tripleEmphasis a @ t # tripleEmphasis b
       \<and> doubleEmphasis (a @ t # b) = doubleEmphasis a @ t # doubleEmphasis b
       \<and> singleEmphasis (a @ t # b) = singleEmphasis a @ t # singleEmphasis b
       \<and> emphasis (a @ t # b) = emphasis a @ t # emphasis b
       \<and> headers (a @ t # b) = headers a @ t # headers b
       \<and> blockquotes (a @ t # b) = blockquotes a @ t # blockquotes b
       \<and> listItems (a @ t # b) = listItems a @ t # listItems b"
proof -
  have e: "emphasis (a @ t # b) = emphasis a @ t # emphasis b"
    using assms
    by (simp add: emphasis_def tripleEmphasis_before doubleEmphasis_before singleEmphasis_before)
  have h: "headers (a @ t # b) = headers a @ t # headers b"
    using assms by (simp add: headers_def replaceLinePrefix_append)
  have q: "blockquotes (a @ t # b) = blockquotes a @ t # blockquotes b"
    using assms by (simp add: blockquotes_def replaceLinePrefix_append)
  have l: "listItems (a @ t # b) = listItems a @ t # listItems b"
    using assms by (simp add: listItems_def replaceLinePrefix_append)
  from assms e h q l show ?thesis
    by (simp add: tripleEmphasis_before doubleEmphasis_before singleEmphasis_before)
qed

theorem passes_line_by_line_witness:
  "isLineTerminator 10
   \<and> emphasis (js ''*x'' @ 10 # js ''y*'') = emphasis (js ''*x'') @ 10 # emphasis (js ''y*'')
   \<and> emphasis (js ''*x'') @ 10 # emphasis (js ''y*'') = js ''*x'' @ 10 # js ''y*''"
proof -
  have lt: "isLineTerminator 10" by (simp add: isLineTerminator_def)
  have ev: "emphasis (js ''*x'') @ 10 # emphasis (js ''y*'') = js ''*x'' @ 10 # js ''y*''"
    by code_simp
  from passes_line_by_line [OF lt, of "js ''*x''" "js ''y*''"] lt ev show ?thesis by simp
qed

theorem emphasis_markers_counterexample:
  "emphasis (js ''**a'' @ [10] @ js ''b**'')
     = EM_OPEN @ EM_CLOSE @ js ''a'' @ [10] @ js ''b'' @ EM_OPEN @ EM_CLOSE
   \<and> emphasis (js ''**a'' @ [10] @ js ''b**'') \<noteq> js ''**a'' @ [10] @ js ''b**''
   \<and> markdownToHtml (js ''**a'' @ [10] @ js ''b**'')
     = EM_OPEN @ EM_CLOSE @ js ''a'' @ [10] @ P_OPEN @ js ''b'' @ EM_OPEN @ EM_CLOSE @ P_CLOSE"
  by code_simp

subsection \<open>Runs of list items\<close>

lemma mapLinesFrom_plain:
  "list_all (\<lambda>c. \<not> isLineTerminator c) s \<Longrightarrow> mapLinesFrom f acc s = f (rev acc @ s)"
  by (induction s arbitrary: acc) auto

lemma listItems_itemLine:
  "plainItem t \<Longrightarrow> listItems (itemLine t) = itemFragment t"
proof -
  assume p: "plainItem t"
  have nlt: "list_all (\<lambda>c. \<not> isLineTerminator c) (js ''- '' @ t)"
    using p by (simp add: plainItem_def js_def isLineTerminator_def)
  have "startsWith (js ''- '' @ t) (js ''- '')" by (rule startsWith_append)
  then show ?thesis
    using mapLinesFrom_plain [OF nlt, of "wrapLine (js ''- '') ITEM_OPEN ITEM_CLOSE" "[]"]
    by (simp add: listItems_def replaceLinePrefix_def mapLines_def wrapLine_def itemLine_def
        itemFragment_def)
qed

lemma lf_terminator: "isLineTerminator 10"
  by (simp add: isLineTerminator_def)

lemma listItems_run:
  "ts \<noteq> [] \<Longrightarrow> list_all plainItem ts \<Longrightarrow>
   listItems (joinWith [10] (map itemLine ts)) = joinWith [10] (map itemFragment ts)"
proof (induction ts rule: induct_list012)
  case 1
  then show ?case by simp
next
  case (2 t)
  then show ?case by (simp add: listItems_itemLine)
next
  case (3 t u us)
  have "listItems (itemLine t @ 10 # joinWith [10] (map itemLine (u # us)))
      = listItems (itemLine t) @ 10 # listItems (joinWith [10] (map itemLine (u # us)))"
    using listItems_before [OF lf_terminator] by blast
  with 3 show ?case by (simp add: listItems_itemLine)
qed


lemma startsWith_straddle:
  assumes "x \<noteq> []" "c \<notin> set ps"
  shows "startsWith (x @ c # y) (c # ps) = startsWith x (c # ps)"
proof (cases x)
  case Nil
  with assms show ?thesis by simp
next
  case (Cons a as)
  then show ?thesis
    using startsWith_before [OF assms(2), of as y] by simp
qed

lemma LI_CLOSE_list: "LI_CLOSE = [60, 47, 108, 105, 62]"
  by (simp add: LI_CLOSE_def js_def)

lemma SPAN_CLOSE_list: "js ''</span>'' = [60, 47, 115, 112, 97, 110, 62]"
  by (simp add: js_def)

text \<open>The closing tag of the fragment is the first one behind an item text without one.\<close>

lemma splitAtFirst_item_text:
  "\<not> includesStr t LI_CLOSE \<Longrightarrow>
   splitAtFirst (\<lambda>c. False) LI_CLOSE (t @ js ''</span>'' @ LI_CLOSE @ r)
     = Some (t @ js ''</span>'', r)"
proof (induction t)
  case Nil
  show ?case by (simp add: LI_CLOSE_list SPAN_CLOSE_list)
next
  case (Cons c cs)
  then have ns: "\<not> startsWith (c # cs) LI_CLOSE" and ni: "\<not> includesStr cs LI_CLOSE"
    by (auto split: if_splits)
  have "startsWith ((c # cs) @ 60 # ([47, 115, 112, 97, 110, 62] @ LI_CLOSE @ r)) (60 # [47, 108, 105, 62])
      = startsWith (c # cs) (60 # [47, 108, 105, 62])"
    by (rule startsWith_straddle) simp_all
  with ns have "\<not> startsWith (c # (cs @ js ''</span>'' @ LI_CLOSE @ r)) LI_CLOSE"
    by (simp add: LI_CLOSE_list SPAN_CLOSE_list)
  with Cons.IH [OF ni] show ?case
    by (simp del: startsWith.simps)
qed

lemma ITEM_OPEN_split:
  "ITEM_OPEN = LI_OPEN @ [60, 115, 112, 97, 110, 32, 99, 108, 97, 115, 115, 61, 34, 116, 101,
     120, 116, 45, 97, 99, 99, 101, 110, 116, 34, 62, 8226, 60, 47, 115, 112, 97, 110, 62,
     60, 115, 112, 97, 110, 62]"
  by (simp add: ITEM_OPEN_def js_def)

lemma splitAtFirst_item:
  assumes "\<not> includesStr t LI_CLOSE"
  shows "splitAtFirst (\<lambda>c. False) LI_CLOSE (drop (length LI_OPEN) (itemFragment t @ r))
     = Some (drop (length LI_OPEN) ITEM_OPEN @ t @ js ''</span>'', r)"
proof -
  have "splitAtFirst (\<lambda>c. False) LI_CLOSE (t @ js ''</span>'' @ LI_CLOSE @ r)
     = Some (t @ js ''</span>'', r)"
    using assms by (rule splitAtFirst_item_text)
  then show ?thesis
    by (simp add: itemFragment_def ITEM_OPEN_split ITEM_CLOSE_def LI_CLOSE_list)
qed

lemma matchItem_fragment:
  assumes "\<not> includesStr t LI_CLOSE"
  shows "matchItem LI_OPEN LI_CLOSE (itemFragment t @ r)
     = (case r of
          [] \<Rightarrow> Some (itemFragment t, [])
        | c # cs \<Rightarrow> if c = 10 then Some (itemFragment t @ [10], cs) else Some (itemFragment t, r))"
proof -
  let ?inner = "drop (length LI_OPEN) ITEM_OPEN @ t @ js ''</span>''"
  have sw: "startsWith (itemFragment t @ r) LI_OPEN"
    by (simp add: itemFragment_def ITEM_OPEN_def startsWith_append)
  have sp: "splitAtFirst (\<lambda>c. False) LI_CLOSE (drop (length LI_OPEN) (itemFragment t @ r))
      = Some (?inner, r)"
    using assms by (rule splitAtFirst_item)
  have eq: "LI_OPEN @ ?inner @ LI_CLOSE @ z = itemFragment t @ z" for z
    by (simp add: itemFragment_def ITEM_OPEN_def ITEM_CLOSE_def)
  have "matchItem LI_OPEN LI_CLOSE (itemFragment t @ r)
     = (case r of
          [] \<Rightarrow> Some (LI_OPEN @ ?inner @ LI_CLOSE @ [], r)
        | c # cs \<Rightarrow>
            if c = 10 then Some (LI_OPEN @ ?inner @ LI_CLOSE @ [10], cs)
            else Some (LI_OPEN @ ?inner @ LI_CLOSE @ [], r))"
    unfolding matchItem_def by (simp only: sw sp if_True option.case prod.case append_Nil2)
  then show ?thesis
    by (simp only: eq) (simp split: list.splits)
qed

lemma matchItem_not_item:
  "c \<noteq> 60 \<Longrightarrow> matchItem LI_OPEN LI_CLOSE (c # s) = None"
  by (simp add: matchItem_def LI_OPEN_def js_def)

lemma matchItem_Nil: "matchItem LI_OPEN LI_CLOSE [] = None"
  by (simp add: matchItem_def LI_OPEN_def js_def)

lemma itemFragment_length: "0 < length (itemFragment t)"
  by (simp add: itemFragment_def ITEM_CLOSE_def LI_CLOSE_list)

lemma matchItems_None:
  "matchItem opn cls s = None \<Longrightarrow> matchItems opn cls s = ([], s)"
  by (subst matchItems.simps) simp

lemma matchItems_Some:
  "matchItem opn cls s = Some (m, rest) \<Longrightarrow> length rest < length s \<Longrightarrow>
   matchItems opn cls s = (case matchItems opn cls rest of (ms, r) \<Rightarrow> (m @ ms, r))"
  by (subst matchItems.simps) simp

text \<open>The greedy repetition takes a whole run of fragments, and the line feed behind
  it when there is one.\<close>

lemma matchItems_run:
  assumes "ts \<noteq> []" "list_all plainItem ts" "matchItem LI_OPEN LI_CLOSE r = None"
  shows "matchItems LI_OPEN LI_CLOSE (joinWith [10] (map itemFragment ts) @ 10 # r)
           = (joinWith [10] (map itemFragment ts) @ [10], r)
       \<and> matchItems LI_OPEN LI_CLOSE (joinWith [10] (map itemFragment ts))
           = (joinWith [10] (map itemFragment ts), [])"
  using assms
proof (induction ts rule: induct_list012)
  case 1
  then show ?case by simp
next
  case (2 t)
  then have ni: "\<not> includesStr t LI_CLOSE" by (simp add: plainItem_def)
  have m1: "matchItem LI_OPEN LI_CLOSE (itemFragment t @ 10 # r) = Some (itemFragment t @ [10], r)"
    using matchItem_fragment [OF ni, of "10 # r"] by simp
  have a: "matchItems LI_OPEN LI_CLOSE (itemFragment t @ 10 # r) = (itemFragment t @ [10], r)"
    using matchItems_Some [OF m1] matchItems_None [OF 2(3)] by simp
  have m2: "matchItem LI_OPEN LI_CLOSE (itemFragment t) = Some (itemFragment t, [])"
    using matchItem_fragment [OF ni, of "[]"] by simp
  have b: "matchItems LI_OPEN LI_CLOSE (itemFragment t) = (itemFragment t, [])"
    using matchItems_Some [OF m2] matchItems_None [OF matchItem_Nil] itemFragment_length [of t]
    by simp
  from a b show ?case by simp
next
  case (3 t u us)
  then have ni: "\<not> includesStr t LI_CLOSE" by (simp add: plainItem_def)
  let ?rest = "joinWith [10] (map itemFragment (u # us))"
  from 3 have ih1: "matchItems LI_OPEN LI_CLOSE (?rest @ 10 # r) = (?rest @ [10], r)"
    and ih2: "matchItems LI_OPEN LI_CLOSE ?rest = (?rest, [])"
    by simp_all
  have m1: "matchItem LI_OPEN LI_CLOSE (itemFragment t @ 10 # (?rest @ 10 # r))
      = Some (itemFragment t @ [10], ?rest @ 10 # r)"
    using matchItem_fragment [OF ni, of "10 # (?rest @ 10 # r)"] by simp
  have a: "matchItems LI_OPEN LI_CLOSE (itemFragment t @ 10 # (?rest @ 10 # r))
      = (itemFragment t @ 10 # ?rest @ [10], r)"
    using matchItems_Some [OF m1] ih1 by simp
  have m2: "matchItem LI_OPEN LI_CLOSE (itemFragment t @ 10 # ?rest)
      = Some (itemFragment t @ [10], ?rest)"
    using matchItem_fragment [OF ni, of "10 # ?rest"] by simp
  have b: "matchItems LI_OPEN LI_CLOSE (itemFragment t @ 10 # ?rest)
      = (itemFragment t @ 10 # ?rest, [])"
    using matchItems_Some [OF m2] ih2 by simp
  from a b show ?case by simp
qed

lemma replaceAll_match:
  "m s = Some (r, rest) \<Longrightarrow> length rest < length s \<Longrightarrow>
   replaceAll m s = r @ replaceAll m rest"
  by (cases s) auto

lemma run_nonempty:
  "ts \<noteq> [] \<Longrightarrow> joinWith [10] (map itemFragment ts) \<noteq> []"
  using itemFragment_length
  by (induction ts rule: induct_list012) auto

lemma matchItem_run:
  assumes "ts \<noteq> []" "list_all plainItem ts"
  shows "matchItem LI_OPEN LI_CLOSE (joinWith [10] (map itemFragment ts) @ r) \<noteq> None"
  using assms
proof (induction ts rule: induct_list012)
  case 1
  then show ?case by simp
next
  case (2 t)
  then have ni: "\<not> includesStr t LI_CLOSE" by (simp add: plainItem_def)
  show ?case using matchItem_fragment [OF ni, of r] by (simp split: list.splits)
next
  case (3 t u us)
  then have ni: "\<not> includesStr t LI_CLOSE" by (simp add: plainItem_def)
  show ?case
    using matchItem_fragment [OF ni, of "10 # joinWith [10] (map itemFragment (u # us)) @ r"]
    by simp
qed

lemma wrapLists_run:
  assumes "ts \<noteq> []" "list_all plainItem ts"
  shows "wrapLists (joinWith [10] (map itemFragment ts))
           = UL_OPEN @ joinWith [10] (map itemFragment ts) @ UL_CLOSE"
proof -
  let ?run = "joinWith [10] (map itemFragment ts)"
  have mi: "matchItems LI_OPEN LI_CLOSE ?run = (?run, [])"
    using matchItems_run [OF assms matchItem_Nil] by simp
  have "matchItem LI_OPEN LI_CLOSE (?run @ []) \<noteq> None"
    using assms by (rule matchItem_run)
  with mi have ml: "matchList LI_OPEN LI_CLOSE UL_OPEN UL_CLOSE ?run
      = Some (UL_OPEN @ ?run @ UL_CLOSE, [])"
    by (auto simp: matchList_def)
  have "length [] < length ?run"
    using run_nonempty [OF assms(1)] by simp
  from replaceAll_match [where m = "matchList LI_OPEN LI_CLOSE UL_OPEN UL_CLOSE" and s = ?run,
      OF ml this]
  show ?thesis
    by (simp add: wrapLists_def)
qed

lemma wrapLists_run_blank:
  assumes "ts \<noteq> []" "list_all plainItem ts"
  shows "wrapLists (joinWith [10] (map itemFragment ts) @ [10, 10] @ rest)
           = UL_OPEN @ joinWith [10] (map itemFragment ts) @ [10] @ UL_CLOSE @ [10]
             @ wrapLists rest"
proof -
  let ?run = "joinWith [10] (map itemFragment ts)"
  let ?m = "matchList LI_OPEN LI_CLOSE UL_OPEN UL_CLOSE"
  have n: "matchItem LI_OPEN LI_CLOSE (10 # rest) = None"
    by (rule matchItem_not_item) simp
  have mi: "matchItems LI_OPEN LI_CLOSE (?run @ 10 # 10 # rest) = (?run @ [10], 10 # rest)"
    using matchItems_run [OF assms(1,2) n] by simp
  have "matchItem LI_OPEN LI_CLOSE (?run @ 10 # 10 # rest) \<noteq> None"
    using assms(1,2) by (rule matchItem_run)
  with mi have ml: "?m (?run @ 10 # 10 # rest)
      = Some (UL_OPEN @ (?run @ [10]) @ UL_CLOSE, 10 # rest)"
    by (auto simp: matchList_def)
  have "length (10 # rest) < length (?run @ 10 # 10 # rest)" by simp
  from replaceAll_match [where m = ?m and s = "?run @ 10 # 10 # rest", OF ml this]
  have 1: "replaceAll ?m (?run @ 10 # 10 # rest)
      = UL_OPEN @ ?run @ [10] @ UL_CLOSE @ replaceAll ?m (10 # rest)"
    by simp
  have "?m (10 # rest) = None"
    using n by (simp add: matchList_def)
  then have 2: "replaceAll ?m (10 # rest) = 10 # replaceAll ?m rest"
    by simp
  from 1 2 show ?thesis by (simp add: wrapLists_def)
qed

lemma listItems_Nil: "listItems [] = []"
  by (simp add: listItems_def replaceLinePrefix_def mapLines_def wrapLine_def js_def)

text \<open>
  Claim C6, as the script has it. For item texts without the closing tag
  \<^verbatim>\<open></li>\<close>: the two list passes turn a text that is one run of item lines, joined
  by single line feeds, into exactly one list container around the item fragments; a run
  that is followed by a blank line becomes one container (which also holds the line
  feed that ends the run), and what follows the blank line is wrapped on its own, so
  two runs with a blank line between them become two containers. The renderer as a
  whole makes one container with three fragments of three \<^verbatim>\<open>- item\<close> lines, and
  two single-item containers of \<^verbatim>\<open>- item\<close>, a blank line, \<^verbatim>\<open>- item\<close>. (For
  every item text the claim fails: the wrapping pattern ends an item at the first
  \<^verbatim>\<open></li>\<close>, see the counterexample.)
\<close>

theorem list_runs_wrapped:
  assumes "ts \<noteq> []" "list_all plainItem ts" "us \<noteq> []" "list_all plainItem us"
  shows "wrapLists (listItems (joinWith [10] (map itemLine ts)))
           = UL_OPEN @ joinWith [10] (map itemFragment ts) @ UL_CLOSE
       \<and> wrapLists (listItems (joinWith [10] (map itemLine ts) @ [10, 10] @ rest))
           = UL_OPEN @ joinWith [10] (map itemFragment ts) @ [10] @ UL_CLOSE @ [10]
             @ wrapLists (listItems rest)
       \<and> wrapLists (listItems (joinWith [10] (map itemLine ts) @ [10, 10]
                                 @ joinWith [10] (map itemLine us)))
           = UL_OPEN @ joinWith [10] (map itemFragment ts) @ [10] @ UL_CLOSE @ [10]
             @ UL_OPEN @ joinWith [10] (map itemFragment us) @ UL_CLOSE
       \<and> markdownToHtml (joinWith [10] (map itemLine [js ''item'', js ''item'', js ''item'']))
           = UL_OPEN @ joinWith [10] (map itemFragment [js ''item'', js ''item'', js ''item''])
             @ UL_CLOSE
       \<and> markdownToHtml (itemLine (js ''item'') @ [10, 10] @ itemLine (js ''item''))
           = UL_OPEN @ itemFragment (js ''item'') @ [10] @ UL_CLOSE @ [10]
             @ UL_OPEN @ itemFragment (js ''item'') @ UL_CLOSE"
proof -
  have 1: "wrapLists (listItems (joinWith [10] (map itemLine xs)))
           = UL_OPEN @ joinWith [10] (map itemFragment xs) @ UL_CLOSE"
    if "xs \<noteq> []" "list_all plainItem xs" for xs
    using that by (simp add: listItems_run wrapLists_run)
  have "listItems (joinWith [10] (map itemLine ts) @ 10 # ([] @ 10 # x))
      = listItems (joinWith [10] (map itemLine ts)) @ 10 # (listItems [] @ 10 # listItems x)" for x
    by (simp only: listItems_before [OF lf_terminator])
  then have 2: "wrapLists (listItems (joinWith [10] (map itemLine ts) @ [10, 10] @ x))
           = UL_OPEN @ joinWith [10] (map itemFragment ts) @ [10] @ UL_CLOSE @ [10]
             @ wrapLists (listItems x)" for x
    using assms(1,2) wrapLists_run_blank [OF assms(1,2), of "listItems x"]
    by (simp add: listItems_run listItems_Nil)
  have 3: "markdownToHtml (joinWith [10] (map itemLine [js ''item'', js ''item'', js ''item'']))
           = UL_OPEN @ joinWith [10] (map itemFragment [js ''item'', js ''item'', js ''item''])
             @ UL_CLOSE"
    by code_simp
  have 4: "markdownToHtml (itemLine (js ''item'') @ [10, 10] @ itemLine (js ''item''))
           = UL_OPEN @ itemFragment (js ''item'') @ [10] @ UL_CLOSE @ [10]
             @ UL_OPEN @ itemFragment (js ''item'') @ UL_CLOSE"
    by code_simp
  show ?thesis
    using 1 [OF assms(1,2)] 2 [of rest] 2 [of "joinWith [10] (map itemLine us)"]
      1 [OF assms(3,4)] 3 4
    by simp
qed

theorem list_runs_wrapped_witness:
  "[js ''one'', js ''*two*'', js ''<b>3</b>''] \<noteq> []
   \<and> list_all plainItem [js ''one'', js ''*two*'', js ''<b>3</b>'']
   \<and> [js ''four''] \<noteq> [] \<and> list_all plainItem [js ''four'']
   \<and> wrapLists (listItems (joinWith [10] (map itemLine [js ''one'', js ''*two*'', js ''<b>3</b>''])))
       = UL_OPEN @ joinWith [10] (map itemFragment [js ''one'', js ''*two*'', js ''<b>3</b>''])
         @ UL_CLOSE
   \<and> wrapLists (listItems (joinWith [10] (map itemLine [js ''one'', js ''*two*'', js ''<b>3</b>''])
                             @ [10, 10] @ joinWith [10] (map itemLine [js ''four''])))
       = UL_OPEN @ joinWith [10] (map itemFragment [js ''one'', js ''*two*'', js ''<b>3</b>''])
         @ [10] @ UL_CLOSE @ [10] @ UL_OPEN @ joinWith [10] (map itemFragment [js ''four''])
         @ UL_CLOSE"
proof -
  have h1: "[js ''one'', js ''*two*'', js ''<b>3</b>''] \<noteq> []" by simp
  have h2: "list_all plainItem [js ''one'', js ''*two*'', js ''<b>3</b>'']" by code_simp
  have h3: "[js ''four''] \<noteq> []" by simp
  have h4: "list_all plainItem [js ''four'']" by code_simp
  from list_runs_wrapped [OF h1 h2 h3 h4, of "[]"] h1 h2 h3 h4 show ?thesis by blast
qed

theorem list_runs_wrapped_counterexample:
  "markdownToHtml (itemLine (js ''a</li>b'') @ [10] @ itemLine (js ''c''))
     = UL_OPEN @ ITEM_OPEN @ js ''a'' @ LI_CLOSE @ UL_CLOSE @ js ''b'' @ ITEM_CLOSE @ [10]
       @ UL_OPEN @ itemFragment (js ''c'') @ UL_CLOSE
   \<and> wrapLists (listItems (itemLine (js ''a</li>b'') @ [10] @ itemLine (js ''c'')))
     = UL_OPEN @ ITEM_OPEN @ js ''a'' @ LI_CLOSE @ UL_CLOSE @ js ''b'' @ ITEM_CLOSE @ [10]
       @ UL_OPEN @ itemFragment (js ''c'') @ UL_CLOSE"
  by code_simp

subsection \<open>Replaying the writes of a run\<close>

lemma applyWrites_simps [simp]:
  "applyWrites [] es = es"
  "applyWrites ((k, v) # W) es = applyWrites W (AList.update k v es)"
  by (simp_all add: applyWrites_def)

lemma applyWrites_append [simp]:
  "applyWrites (V @ W) es = applyWrites W (applyWrites V es)"
  by (simp add: applyWrites_def)

lemma lastWrite_simps [simp]:
  "lastWrite [] k x = x"
  "lastWrite ((k, v) # W) k x = lastWrite W k v"
  "k' \<noteq> k \<Longrightarrow> lastWrite ((k', v) # W) k x = lastWrite W k x"
  by (auto simp: lastWrite_def map_add_def split: option.splits)

lemma applyWrites_Cons_entry:
  "applyWrites W ((k, x) # es)
     = (k, lastWrite W k x) # applyWrites (filter (\<lambda>(k', v). k' \<noteq> k) W) es"
proof (induction W arbitrary: x es)
  case Nil
  show ?case by simp
next
  case (Cons w W)
  obtain k1 v1 where w: "w = (k1, v1)" by (cases w)
  show ?case
    using Cons.IH by (cases "k1 = k") (simp_all add: w)
qed

lemma lastWrite_idem: "lastWrite W k (lastWrite W k x) = lastWrite W k x"
  by (simp add: lastWrite_def split: option.splits)

lemma applyWrites_Nil_idem:
  "applyWrites W (applyWrites W []) = applyWrites W []"
proof (induction W rule: length_induct)
  case (1 W)
  show ?case
  proof (cases W)
    case Nil
    then show ?thesis by simp
  next
    case (Cons w W')
    obtain k v where w: "w = (k, v)" by (cases w)
    let ?W'' = "filter (\<lambda>(k', v). k' \<noteq> k) W'"
    have e: "applyWrites W [] = (k, lastWrite W' k v) # applyWrites ?W'' []"
      using applyWrites_Cons_entry [of W' k v "[]"] by (simp add: Cons w)
    have "length ?W'' < length W" by (simp add: Cons less_Suc_eq_le)
    with 1 have ih: "applyWrites ?W'' (applyWrites ?W'' []) = applyWrites ?W'' []" by blast
    have "applyWrites W ((k, lastWrite W' k v) # applyWrites ?W'' [])
        = (k, lastWrite W k (lastWrite W' k v))
          # applyWrites (filter (\<lambda>(k', v). k' \<noteq> k) W) (applyWrites ?W'' [])"
      by (rule applyWrites_Cons_entry)
    also have "filter (\<lambda>(k', v). k' \<noteq> k) W = ?W''" by (simp add: Cons w)
    also have "lastWrite W k (lastWrite W' k v) = lastWrite W' k v"
      by (simp add: Cons w)
    finally show ?thesis using e ih by simp
  qed
qed

lemma applyWrites_idem:
  "applyWrites W (applyWrites W es) = applyWrites W es"
proof (induction es arbitrary: W)
  case Nil
  show ?case by (rule applyWrites_Nil_idem)
next
  case (Cons e es)
  obtain k x where e: "e = (k, x)" by (cases e)
  show ?case
    by (simp add: e applyWrites_Cons_entry lastWrite_idem Cons.IH)
qed

lemma map_of_applyWrites:
  "map_of (applyWrites W es) k = (case map_of (rev W) k of Some v \<Rightarrow> Some v | None \<Rightarrow> map_of es k)"
proof (induction W arbitrary: es)
  case Nil
  show ?case by simp
next
  case (Cons w W)
  obtain k1 v1 where w: "w = (k1, v1)" by (cases w)
  show ?case
    by (auto simp: w Cons.IH update_conv' map_add_def split: option.splits)
qed

lemma sameFiles_refl [simp]: "sameFiles w w"
  by (simp add: sameFiles_def)

lemma sameFiles_log [simp]:
  "sameFiles (log m c v) w = sameFiles v w"
  "sameFiles (logBlank v) w = sameFiles v w"
  "sameFiles (banner m c v) w = sameFiles v w"
  by (simp_all add: sameFiles_def)

lemma slugStrings_Nil [simp]: "slugStrings [] = Some []"
  by (simp add: slugStrings_def)

lemma slugStrings_Cons:
  "slugStrings (a # as)
     = (case slugString a of
          Inl e \<Rightarrow> None
        | Inr s \<Rightarrow> map_option (Cons s) (slugStrings as))"
  by (simp add: slugStrings_def split: sum.splits option.splits)

lemma slugStrings_length: "slugStrings as = Some ss \<Longrightarrow> length ss = length as"
  by (induction as arbitrary: ss) (auto simp: slugStrings_Cons split: sum.splits)

lemma slugStrings_map: "slugStrings as = Some ss \<Longrightarrow> map slugString as = map Inr ss"
  by (induction as arbitrary: ss) (auto simp: slugStrings_Cons split: sum.splits)

lemma writeArticles_Done:
  "slugStrings as = Some ss \<Longrightarrow> outputDir w = Some es \<Longrightarrow>
   \<exists>w'. writeArticles as w = Done w'
        \<and> outputDir w' = Some (applyWrites (moduleFiles ss as) es)
        \<and> contentDir w' = contentDir w \<and> publicImagesDir w' = publicImagesDir w
        \<and> contentDirPath w' = contentDirPath w"
proof (induction as arbitrary: ss w es)
  case Nil
  then show ?case by (simp add: moduleFiles_def)
next
  case (Cons a as)
  from Cons.prems(1) obtain s ss' where s: "slugString a = Inr s" "ss = s # ss'"
    "slugStrings as = Some ss'"
    by (auto simp: slugStrings_Cons split: sum.splits)
  let ?w1 = "log (js ''  Generated: '' @ s @ js ''.ts'') Green
     (w\<lparr>outputDir := Some (AList.update (s @ js ''.ts'') (articleText s a) es)\<rparr>)"
  have o: "outputDir ?w1 = Some (AList.update (s @ js ''.ts'') (articleText s a) es)" by simp
  from Cons.IH [OF s(3) o] obtain w' where w': "writeArticles as ?w1 = Done w'"
    "outputDir w' = Some (applyWrites (moduleFiles ss' as)
        (AList.update (s @ js ''.ts'') (articleText s a) es))"
    "contentDir w' = contentDir ?w1" "publicImagesDir w' = publicImagesDir ?w1"
    "contentDirPath w' = contentDirPath ?w1"
    by blast
  show ?case
    using s w' Cons.prems(2)
    by (simp add: writeOutput_Some moduleFiles_def)
qed

lemma writeArticles_Throw:
  "slugStrings as = None \<Longrightarrow> writeArticles as w \<noteq> Done w'"
proof (induction as arbitrary: w)
  case Nil
  then show ?case by simp
next
  case (Cons a as)
  show ?case
  proof (cases "slugString a")
    case (Inl e)
    then show ?thesis by simp
  next
    case (Inr s)
    with Cons.prems have "slugStrings as = None"
      by (simp add: slugStrings_Cons)
    with Cons.IH Inr show ?thesis
      by (auto simp: writeOutput_def split: option.splits result.splits)
  qed
qed

lemma generate_Done:
  assumes "slugStrings as = Some ss"
  shows "\<exists>w'. generateTypeScriptFiles as w = Done w'
        \<and> outputDir w' = Some (applyWrites (generatedFiles ss as) (entries (outputDir w)))
        \<and> contentDir w' = contentDir w \<and> publicImagesDir w' = publicImagesDir w
        \<and> contentDirPath w' = contentDirPath w"
proof -
  let ?w0 = "if outputDir w = None then w\<lparr>outputDir := Some []\<rparr> else w"
  have o: "outputDir ?w0 = Some (entries (outputDir w))"
    by (auto simp: entries_def)
  from writeArticles_Done [OF assms o] obtain w1 where w1: "writeArticles as ?w0 = Done w1"
    "outputDir w1 = Some (applyWrites (moduleFiles ss as) (entries (outputDir w)))"
    "contentDir w1 = contentDir ?w0" "publicImagesDir w1 = publicImagesDir ?w0"
    "contentDirPath w1 = contentDirPath ?w0"
    by blast
  have "writeIndex as w1
      = Done (log (js ''  Generated: index.ts'') Green
          (w1\<lparr>outputDir := Some (AList.update (js ''index.ts'') (indexText ss as)
             (applyWrites (moduleFiles ss as) (entries (outputDir w))))\<rparr>))"
    using assms w1(2) by (simp add: writeIndex_def indexContent_def writeOutput_Some)
  with w1 show ?thesis
    by (auto simp: generateTypeScriptFiles_def Let_def generatedFiles_def)
qed

lemma generate_Done_D:
  "generateTypeScriptFiles as w = Done w' \<Longrightarrow> \<exists>ss. slugStrings as = Some ss"
proof (rule ccontr)
  assume g: "generateTypeScriptFiles as w = Done w'" and "\<nexists>ss. slugStrings as = Some ss"
  then have n: "slugStrings as = None" by auto
  from g show False
    using writeArticles_Throw [OF n]
    by (auto simp: generateTypeScriptFiles_def Let_def split: result.splits)
qed

lemma processMarkdownFile_cong:
  "contentDir v = contentDir w \<Longrightarrow> processMarkdownFile v f = processMarkdownFile w f"
  by (simp add: processMarkdownFile_def readContent_def)

lemma processFiles_cong:
  "contentDir v = contentDir w \<Longrightarrow> processFiles v fs = processFiles w fs"
  by (induction fs) (auto simp: processMarkdownFile_cong [of v w] split: sum.splits)

lemma processLogged_files:
  "sameFiles (snd (processLogged fs w)) w \<and> fst (processLogged fs w) = processFiles w fs"
proof (induction fs arbitrary: w)
  case Nil
  show ?case by simp
next
  case (Cons f fs)
  let ?w1 = "log (js ''  Reading: '' @ f) Cyan w"
  have c: "contentDir ?w1 = contentDir w" by simp
  show ?case
    using Cons.IH [of ?w1] processMarkdownFile_cong [OF c] processFiles_cong [OF c]
    by (auto simp: Let_def sameFiles_def split: sum.splits prod.splits)
qed



lemma processFiles_set:
  "processFiles w fs = Inr as \<Longrightarrow>
   a \<in> set as \<longleftrightarrow> (\<exists>f\<in>set fs. processMarkdownFile w f = Inr a)"
  by (induction fs arbitrary: as) (auto split: sum.splits)

lemma slugString_Inr: "slugString a = Inr s \<longleftrightarrow> slug a = Some (Scalar s)"
  by (auto simp: slugString_def split: option.splits fmval.splits)

lemma slugStrings_set:
  "slugStrings as = Some ss \<Longrightarrow> s \<in> set ss \<longleftrightarrow> (\<exists>a\<in>set as. slug a = Some (Scalar s))"
  by (induction as arbitrary: ss)
     (auto simp: slugStrings_Cons slugString_Inr [symmetric] split: sum.splits)

lemma slugStrings_zip:
  "slugStrings as = Some ss \<Longrightarrow> (s, a) \<in> set (zip ss as) \<Longrightarrow> slug a = Some (Scalar s)"
  by (induction as arbitrary: ss)
     (auto simp: slugStrings_Cons slugString_Inr [symmetric] split: sum.splits)

lemma sourcesOf_iff:
  assumes "processFiles w (fst (getMarkdownFiles w)) = Inr as" "slugStrings as = Some ss"
  shows "sourcesOf w s \<noteq> [] \<longleftrightarrow> s \<in> set ss"
proof -
  let ?fs = "fst (getMarkdownFiles w)"
  have pt: "(case processMarkdownFile w f of Inl e \<Rightarrow> False | Inr a \<Rightarrow> slug a = Some (Scalar s))
      \<longleftrightarrow> (\<exists>a. processMarkdownFile w f = Inr a \<and> slug a = Some (Scalar s))" for f
    by (cases "processMarkdownFile w f") auto
  have "sourcesOf w s \<noteq> []
      \<longleftrightarrow> (\<exists>f\<in>set ?fs. \<exists>a. processMarkdownFile w f = Inr a \<and> slug a = Some (Scalar s))"
    by (simp add: sourcesOf_def filter_empty_conv pt)
  also have "\<dots> \<longleftrightarrow> (\<exists>a\<in>set as. slug a = Some (Scalar s))"
    using processFiles_set [OF assms(1)] by blast
  also have "\<dots> \<longleftrightarrow> s \<in> set ss"
    using slugStrings_set [OF assms(2)] by simp
  finally show ?thesis .
qed

lemma deleteArticle_Done:
  assumes ex: "readOutput w (s @ js ''.ts'') \<noteq> None"
    and d: "deleteArticle s w = Done w'"
    and fs: "fst (getMarkdownFiles w) \<noteq> []"
  shows "\<exists>as ss. processFiles w (fst (getMarkdownFiles w)) = Inr as \<and> slugStrings as = Some ss
           \<and> outputDir w' = Some (applyWrites (generatedFiles ss as)
                 (AList.delete (s @ js ''.ts'') (entries (outputDir w))))
           \<and> contentDir w' = contentDir w \<and> publicImagesDir w' = publicImagesDir w"
proof -
  let ?w1 = "log (js ''  Deleted: '' @ s @ js ''.ts'') Red (unlinkOutput (s @ js ''.ts'') w)"
  let ?fs = "fst (getMarkdownFiles w)"
  have c1: "contentDir ?w1 = contentDir w" by simp
  have f1: "fst (getMarkdownFiles ?w1) = ?fs"
    using c1 by (rule getMarkdownFiles_fst)
  obtain w2 where g: "getMarkdownFiles ?w1 = (?fs, w2)"
    using f1 by (cases "getMarkdownFiles ?w1") simp
  then have w2: "w2 = snd (getMarkdownFiles ?w1)" by simp
  have c2: "contentDir w2 = contentDir w" and o2: "outputDir w2 = outputDir ?w1"
    and i2: "publicImagesDir w2 = publicImagesDir w"
    unfolding w2 by simp_all
  have p: "processFiles w2 ?fs = processFiles w ?fs"
    using c2 by (rule processFiles_cong)
  have de: "deleteArticle s w
      = (case regenerate ?w1 of
           Throw e w' \<Rightarrow> Throw e w'
         | Done w' \<Rightarrow>
             Done (logBlank (banner (js ''       Article deleted successfully!      '') Green
               (logBlank w'))))"
    using ex by (simp add: deleteArticle_def del: not_None_eq)
  obtain w3 where r: "regenerate ?w1 = Done w3"
    and w': "w' = logBlank (banner (js ''       Article deleted successfully!      '') Green
               (logBlank w3))"
  proof (cases "regenerate ?w1")
    case (Done w3)
    have "Done w' = Done (logBlank (banner (js ''       Article deleted successfully!      '')
        Green (logBlank w3)))"
      using de unfolding d Done by simp
    then have "w' = logBlank (banner (js ''       Article deleted successfully!      '')
        Green (logBlank w3))"
      by (simp only: result.inject)
    with Done that show ?thesis by blast
  next
    case (Throw e w3)
    have "Done w' = Throw e w3"
      using de unfolding d Throw by simp
    then show ?thesis by simp
  qed
  have re: "regenerate ?w1
      = (case processFiles w ?fs of
           Inl e \<Rightarrow> Throw e w2
         | Inr as \<Rightarrow> generateTypeScriptFiles as w2)"
    using fs by (simp add: regenerate_def g p)
  obtain as where as: "processFiles w ?fs = Inr as"
    and gen: "generateTypeScriptFiles as w2 = Done w3"
  proof (cases "processFiles w ?fs")
    case (Inl e)
    have "Done w3 = Throw e w2"
      using re unfolding r Inl by simp
    then show ?thesis by simp
  next
    case (Inr as)
    have "Done w3 = generateTypeScriptFiles as w2"
      using re unfolding r Inr by simp
    with Inr that show ?thesis by simp
  qed
  from generate_Done_D [OF gen] obtain ss where ss: "slugStrings as = Some ss" by blast
  from generate_Done [OF ss, of w2] obtain w4 where w4: "generateTypeScriptFiles as w2 = Done w4"
    "outputDir w4 = Some (applyWrites (generatedFiles ss as) (entries (outputDir w2)))"
    "contentDir w4 = contentDir w2" "publicImagesDir w4 = publicImagesDir w2"
    by blast
  from w4(1) gen have "w4 = w3" by simp
  with w4 have "outputDir w3 = Some (applyWrites (generatedFiles ss as) (entries (outputDir w2)))"
    "contentDir w3 = contentDir w2" "publicImagesDir w3 = publicImagesDir w2"
    by simp_all
  then show ?thesis
    using as ss c2 o2 i2 by (simp add: w' entries_def)
qed

lemma map_of_generatedFiles_index:
  "map_of (rev (generatedFiles ss as)) (js ''index.ts'') = Some (indexText ss as)"
  by (simp add: generatedFiles_def)

lemma ts_name_inject: "s @ js ''.ts'' = s' @ js ''.ts'' \<longleftrightarrow> s = s'"
  by simp

lemma map_of_moduleFiles_None:
  "s \<notin> set ss \<Longrightarrow> map_of (rev (moduleFiles ss as)) (s @ js ''.ts'') = None"
  by (auto simp: moduleFiles_def map_of_eq_None_iff dest: set_zip_leftD)

lemma map_of_moduleFiles_Some:
  assumes "slugStrings as = Some ss" "s \<in> set ss"
  shows "\<exists>a\<in>set as. slug a = Some (Scalar s)
           \<and> map_of (rev (moduleFiles ss as)) (s @ js ''.ts'') = Some (articleText s a)"
proof -
  from assms have "length ss = length as" by (simp add: slugStrings_length)
  with assms(2) obtain a where "(s, a) \<in> set (zip ss as)"
    by (metis in_set_impl_in_set_zip1)
  then have "(\<lambda>(s, a). (s @ js ''.ts'', articleText s a)) (s, a)
      \<in> (\<lambda>(s, a). (s @ js ''.ts'', articleText s a)) ` set (zip ss as)"
    by (rule imageI)
  then have "(s @ js ''.ts'', articleText s a) \<in> set (rev (moduleFiles ss as))"
    by (simp add: moduleFiles_def)
  then have "fst (s @ js ''.ts'', articleText s a) \<in> fst ` set (rev (moduleFiles ss as))"
    by (rule imageI)
  then have "s @ js ''.ts'' \<in> fst ` set (rev (moduleFiles ss as))"
    by simp
  then have "map_of (rev (moduleFiles ss as)) (s @ js ''.ts'') \<noteq> None"
    by (simp only: map_of_eq_None_iff not_False_eq_True not_not)
  then obtain v where v: "map_of (rev (moduleFiles ss as)) (s @ js ''.ts'') = Some v"
    by blast
  from map_of_SomeD [OF v] have "(s @ js ''.ts'', v) \<in> set (moduleFiles ss as)"
    by simp
  then have "(s @ js ''.ts'', v) \<in> (\<lambda>(s, a). (s @ js ''.ts'', articleText s a)) ` set (zip ss as)"
    by (simp add: moduleFiles_def)
  then obtain s' a' where sa: "(s', a') \<in> set (zip ss as)" "s @ js ''.ts'' = s' @ js ''.ts''"
    "v = articleText s' a'"
    by (elim imageE) (auto split: prod.splits)
  then have "s' = s" by simp
  with sa slugStrings_zip [OF assms(1)] have "slug a' = Some (Scalar s)" "a' \<in> set as"
    by (auto dest: set_zip_rightD)
  with v sa \<open>s' = s\<close> show ?thesis by blast
qed

lemma deleteArticle_without_sources:
  assumes "readOutput w (s @ js ''.ts'') \<noteq> None"
    and "fst (getMarkdownFiles w) = []"
  shows "\<exists>w'. deleteArticle s w = Done w'
           \<and> outputDir w' = Some (AList.update (js ''index.ts'') emptyIndex
                 (AList.delete (s @ js ''.ts'') (entries (outputDir w))))
           \<and> contentDir w' = contentDir w \<and> publicImagesDir w' = publicImagesDir w"
proof -
  let ?w1 = "log (js ''  Deleted: '' @ s @ js ''.ts'') Red (unlinkOutput (s @ js ''.ts'') w)"
  have f1: "fst (getMarkdownFiles ?w1) = fst (getMarkdownFiles w)"
    by (rule getMarkdownFiles_fst) simp
  obtain w2 where g: "getMarkdownFiles ?w1 = ([], w2)"
    using f1 assms(2) by (cases "getMarkdownFiles ?w1") simp
  then have w2: "w2 = snd (getMarkdownFiles ?w1)" by simp
  have o2: "outputDir w2 = Some (AList.delete (s @ js ''.ts'') (entries (outputDir w)))"
    and c2: "contentDir w2 = contentDir w" and i2: "publicImagesDir w2 = publicImagesDir w"
    unfolding w2 by simp_all
  have r: "regenerate ?w1 =
      Done (log (js ''  Regenerated: index.ts (empty)'') Green
        (w2\<lparr>outputDir := Some (AList.update (js ''index.ts'') emptyIndex
              (AList.delete (s @ js ''.ts'') (entries (outputDir w))))\<rparr>))"
    by (simp add: regenerate_def g writeOutput_Some [OF o2])
  show ?thesis
    using assms(1) c2 i2 by (simp add: deleteArticle_def r del: not_None_eq)
qed

lemma index_name:
  "js ''index.ts'' = s @ js ''.ts'' \<longleftrightarrow> s = js ''index''"
  "s @ js ''.ts'' = js ''index.ts'' \<longleftrightarrow> s = js ''index''"
proof -
  have "js ''index.ts'' = js ''index'' @ js ''.ts''" by (simp add: js_def)
  then show "js ''index.ts'' = s @ js ''.ts'' \<longleftrightarrow> s = js ''index''"
    by (auto simp del: append_eq_append_conv)
  then show "s @ js ''.ts'' = js ''index.ts'' \<longleftrightarrow> s = js ''index''"
    by (simp add: eq_commute)
qed

lemma readOutput_after_delete:
  assumes ex: "readOutput w (s @ js ''.ts'') \<noteq> None"
    and d: "deleteArticle s w = Done w'"
    and fs: "fst (getMarkdownFiles w) \<noteq> []"
  shows "\<exists>as ss.
           processFiles w (fst (getMarkdownFiles w)) = Inr as \<and> slugStrings as = Some ss
           \<and> contentDir w' = contentDir w
           \<and> readOutput w' (js ''index.ts'') = Some (indexText ss as)
           \<and> (s \<noteq> js ''index'' \<longrightarrow>
                readOutput w' (s @ js ''.ts'') = map_of (rev (moduleFiles ss as)) (s @ js ''.ts''))"
proof -
  from deleteArticle_Done [OF assms] obtain as ss
    where as: "processFiles w (fst (getMarkdownFiles w)) = Inr as"
      and ss: "slugStrings as = Some ss"
      and o: "outputDir w' = Some (applyWrites (generatedFiles ss as)
                 (AList.delete (s @ js ''.ts'') (entries (outputDir w))))"
      and c: "contentDir w' = contentDir w"
    by blast
  have i: "readOutput w' (js ''index.ts'') = Some (indexText ss as)"
    by (simp add: readOutput_def o entries_def map_of_applyWrites generatedFiles_def update_conv')
  have m: "readOutput w' (s @ js ''.ts'') = map_of (rev (moduleFiles ss as)) (s @ js ''.ts'')"
    if "s \<noteq> js ''index''"
  proof -
    from that have n: "js ''index.ts'' \<noteq> s @ js ''.ts''" by (simp add: index_name)
    show ?thesis
      using n
      by (simp add: readOutput_def o entries_def map_of_applyWrites generatedFiles_def
          delete_conv' update_conv' split: option.splits)
  qed
  from as ss c i m show ?thesis by blast
qed


lemma sourcesOf_D:
  "f \<in> set (sourcesOf w s) \<Longrightarrow>
   f \<in> set (fst (getMarkdownFiles w))
   \<and> (\<exists>a. processMarkdownFile w f = Inr a \<and> slug a = Some (Scalar s))"
  by (cases "processMarkdownFile w f") (auto simp: sourcesOf_def)

lemma sourcesOf_I:
  "f \<in> set (fst (getMarkdownFiles w)) \<Longrightarrow> processMarkdownFile w f = Inr a \<Longrightarrow>
   slug a = Some (Scalar s) \<Longrightarrow> f \<in> set (sourcesOf w s)"
  by (simp add: sourcesOf_def)

lemma sourcesOf_no_files: "fst (getMarkdownFiles w) = [] \<Longrightarrow> sourcesOf w s = []"
  by (simp add: sourcesOf_def)

subsection \<open>Deleting a module whose markdown source is still there\<close>

text \<open>The pieces of the index text are in it.\<close>

lemma includesStr_iff: "includesStr s p \<longleftrightarrow> (\<exists>a b. s = a @ p @ b)"
proof (induction s)
  case Nil
  show ?case by auto
next
  case (Cons c cs)
  show ?case
  proof
    assume "includesStr (c # cs) p"
    then consider "startsWith (c # cs) p" | "includesStr cs p"
      by (auto split: if_splits)
    then show "\<exists>a b. c # cs = a @ p @ b"
    proof cases
      case 1
      then obtain r where "c # cs = p @ r" by (auto simp: startsWith_iff)
      then have "c # cs = [] @ p @ r" by simp
      then show ?thesis by blast
    next
      case 2
      with Cons.IH obtain a b where "cs = a @ p @ b" by blast
      then have "c # cs = (c # a) @ p @ b" by simp
      then show ?thesis by blast
    qed
  next
    assume "\<exists>a b. c # cs = a @ p @ b"
    then obtain a b where ab: "c # cs = a @ p @ b" by blast
    show "includesStr (c # cs) p"
    proof (cases a)
      case Nil
      with ab have "startsWith (c # cs) p" by (simp add: startsWith_iff)
      then show ?thesis by simp
    next
      case (Cons x a')
      with ab have "cs = a' @ p @ b" by simp
      with Cons.IH have "includesStr cs p" by blast
      then show ?thesis by simp
    qed
  qed
qed

lemma includesStr_within:
  "s = a @ m @ b \<Longrightarrow> includesStr m p \<Longrightarrow> includesStr s p"
proof -
  assume s: "s = a @ m @ b" and "includesStr m p"
  then obtain c d where "m = c @ p @ d" by (auto simp: includesStr_iff)
  with s have "s = (a @ c) @ p @ (d @ b)" by simp
  then show ?thesis unfolding includesStr_iff by blast
qed

lemma includesStr_self: "includesStr p p"
proof -
  have "p = [] @ p @ []" by simp
  then show ?thesis unfolding includesStr_iff by blast
qed

lemma joinWith_holds: "x \<in> set xs \<Longrightarrow> \<exists>a b. joinWith sep xs = a @ x @ b"
proof (induction xs rule: induct_list012)
  case 1
  then show ?case by simp
next
  case (2 y)
  then have "joinWith sep [y] = [] @ x @ []" by simp
  then show ?case by blast
next
  case (3 y z zs)
  show ?case
  proof (cases "x = y")
    case True
    then have "joinWith sep (y # z # zs) = [] @ x @ (sep @ joinWith sep (z # zs))" by simp
    then show ?thesis by blast
  next
    case False
    with 3 obtain a b where "joinWith sep (z # zs) = a @ x @ b" by auto
    then have "joinWith sep (y # z # zs) = (y @ sep @ a) @ x @ b" by simp
    then show ?thesis by blast
  qed
qed

lemma unlinesJS_holds: "l \<in> set ls \<Longrightarrow> \<exists>a b. unlinesJS ls = a @ l @ b"
proof (induction ls)
  case Nil
  then show ?case by simp
next
  case (Cons y ys)
  show ?case
  proof (cases "l = y")
    case True
    then have "unlinesJS (y # ys) = [] @ l @ ([10] @ unlinesJS ys)" by (simp add: unlinesJS_def)
    then show ?thesis by blast
  next
    case False
    with Cons obtain a b where "unlinesJS ys = a @ l @ b" by auto
    then have "unlinesJS (y # ys) = (y @ [10] @ a) @ l @ b" by (simp add: unlinesJS_def)
    then show ?thesis by blast
  qed
qed

lemma line_in_text:
  assumes "l \<in> set ls" "x \<in> set xs" "l = joinWith sep xs"
  shows "includesStr (unlinesJS ls) x"
proof -
  from unlinesJS_holds [OF assms(1)] obtain a b where u: "unlinesJS ls = a @ l @ b" by blast
  from joinWith_holds [OF assms(2)] assms(3) obtain c d where "l = c @ x @ d" by blast
  then have "includesStr l x" unfolding includesStr_iff by blast
  with u show ?thesis by (rule includesStr_within)
qed

lemma indexText_imports:
  "s \<in> set ss \<Longrightarrow> includesStr (indexText ss as) (importLine s)"
  unfolding indexText_def
  by (rule line_in_text [where l = "joinWith [10] (map importLine ss)" and xs = "map importLine ss"])
     simp_all

lemma indexText_mapping:
  "s \<in> set ss \<Longrightarrow> includesStr (indexText ss as) (mappingLine s)"
  unfolding indexText_def
  by (rule line_in_text [where l = "joinWith [10] (map mappingLine ss)" and xs = "map mappingLine ss"])
     simp_all

lemma indexText_meta:
  "a \<in> set as \<Longrightarrow> includesStr (indexText ss as) (metaBlock a)"
  unfolding indexText_def
  by (rule line_in_text [where l = "joinWith [10] (map metaBlock as)" and xs = "map metaBlock as"])
     simp_all

text \<open>
  Claim C9, as the script has it. \<open>deleteArticle\<close> never touches the content
  directory. When the module of the slug existed and the call returned normally: if a
  markdown file that declares the slug in its frontmatter is still in the content
  directory, the module file of the slug exists again afterwards; unless the slug is
  \<^verbatim>\<open>index\<close> (whose module file is the index file) it holds the article text of such
  a markdown file; and the index written by the regeneration, which is the index text
  for the articles of the markdown files on disk, holds the import line and the mapping
  line of the slug and the metadata record of an article that declares it. If no
  markdown file declares the slug, the module stays deleted. (For a markdown file that
  has the slug as its base name and declares another slug the claim fails: see the
  counterexample.)
\<close>

theorem deleteArticle_recreates_module:
  assumes "readOutput w (s @ js ''.ts'') \<noteq> None"
    and "deleteArticle s w = Done w'"
  shows "contentDir w' = contentDir w
       \<and> (sourcesOf w s \<noteq> [] \<longrightarrow>
            readOutput w' (s @ js ''.ts'') \<noteq> None
            \<and> (s \<noteq> js ''index'' \<longrightarrow>
                 (\<exists>f\<in>set (sourcesOf w s). \<exists>a. processMarkdownFile w f = Inr a
                    \<and> readOutput w' (s @ js ''.ts'') = Some (articleText s a)))
            \<and> (\<exists>as ss. processFiles w (fst (getMarkdownFiles w)) = Inr as
                  \<and> slugStrings as = Some ss
                  \<and> readOutput w' (js ''index.ts'') = Some (indexText ss as)
                  \<and> s \<in> set ss
                  \<and> includesStr (indexText ss as) (importLine s)
                  \<and> includesStr (indexText ss as) (mappingLine s)
                  \<and> (\<exists>a\<in>set as. slug a = Some (Scalar s)
                        \<and> includesStr (indexText ss as) (metaBlock a))))
       \<and> (sourcesOf w s = [] \<and> s \<noteq> js ''index'' \<longrightarrow> readOutput w' (s @ js ''.ts'') = None)"
proof (cases "fst (getMarkdownFiles w) = []")
  case True
  from deleteArticle_without_sources [OF assms(1) True, of ] assms(2)
  have o: "outputDir w' = Some (AList.update (js ''index.ts'') emptyIndex
                 (AList.delete (s @ js ''.ts'') (entries (outputDir w))))"
    and c: "contentDir w' = contentDir w"
    by auto
  have "readOutput w' (s @ js ''.ts'') = None" if "s \<noteq> js ''index''"
    using that by (simp add: readOutput_def o entries_def update_conv' delete_conv' index_name)
  with c sourcesOf_no_files [OF True, of s] show ?thesis by simp
next
  case False
  from readOutput_after_delete [OF assms False] obtain as ss
    where as: "processFiles w (fst (getMarkdownFiles w)) = Inr as"
      and ss: "slugStrings as = Some ss"
      and c: "contentDir w' = contentDir w"
      and i: "readOutput w' (js ''index.ts'') = Some (indexText ss as)"
      and m: "s \<noteq> js ''index'' \<longrightarrow>
                readOutput w' (s @ js ''.ts'') = map_of (rev (moduleFiles ss as)) (s @ js ''.ts'')"
    by blast
  have src: "sourcesOf w s \<noteq> [] \<longleftrightarrow> s \<in> set ss"
    using as ss by (rule sourcesOf_iff)
  have recreated: "\<exists>f\<in>set (sourcesOf w s). \<exists>a. processMarkdownFile w f = Inr a
                    \<and> readOutput w' (s @ js ''.ts'') = Some (articleText s a)"
    if "s \<in> set ss" "s \<noteq> js ''index''"
  proof -
    from map_of_moduleFiles_Some [OF ss that(1)] obtain a
      where a: "a \<in> set as" "slug a = Some (Scalar s)"
        "map_of (rev (moduleFiles ss as)) (s @ js ''.ts'') = Some (articleText s a)"
      by blast
    from a(1) processFiles_set [OF as] obtain f
      where f: "f \<in> set (fst (getMarkdownFiles w))" "processMarkdownFile w f = Inr a"
      by blast
    from f a(2) have "f \<in> set (sourcesOf w s)" by (rule sourcesOf_I)
    with f a(3) m that(2) show ?thesis by auto
  qed
  have exists: "readOutput w' (s @ js ''.ts'') \<noteq> None" if "s \<in> set ss"
  proof (cases "s = js ''index''")
    case True
    then have "s @ js ''.ts'' = js ''index.ts''" by (simp add: js_def)
    with i show ?thesis by simp
  next
    case False
    with recreated [OF that] show ?thesis by auto
  qed
  have gone: "readOutput w' (s @ js ''.ts'') = None" if "s \<notin> set ss" "s \<noteq> js ''index''"
    using that m by (simp add: map_of_moduleFiles_None)
  have idx: "\<exists>as ss. processFiles w (fst (getMarkdownFiles w)) = Inr as
                  \<and> slugStrings as = Some ss
                  \<and> readOutput w' (js ''index.ts'') = Some (indexText ss as)
                  \<and> s \<in> set ss
                  \<and> includesStr (indexText ss as) (importLine s)
                  \<and> includesStr (indexText ss as) (mappingLine s)
                  \<and> (\<exists>a\<in>set as. slug a = Some (Scalar s)
                        \<and> includesStr (indexText ss as) (metaBlock a))"
    if "s \<in> set ss"
  proof -
    from slugStrings_set [OF ss, of s] that obtain a
      where a: "a \<in> set as" "slug a = Some (Scalar s)"
      by blast
    have 1: "includesStr (indexText ss as) (importLine s)"
      using that by (rule indexText_imports)
    have 2: "includesStr (indexText ss as) (mappingLine s)"
      using that by (rule indexText_mapping)
    have 3: "includesStr (indexText ss as) (metaBlock a)"
      using a(1) by (rule indexText_meta)
    from a 3 have 4: "\<exists>a\<in>set as. slug a = Some (Scalar s)
                        \<and> includesStr (indexText ss as) (metaBlock a)"
      by blast
    from as ss i that 1 2 4 show ?thesis by blast
  qed
  show ?thesis
  proof (intro conjI impI)
    show "contentDir w' = contentDir w" by (rule c)
  next
    assume "sourcesOf w s \<noteq> []"
    with src exists show "readOutput w' (s @ js ''.ts'') \<noteq> None" by simp
  next
    assume "sourcesOf w s \<noteq> []" "s \<noteq> js ''index''"
    with src recreated
    show "\<exists>f\<in>set (sourcesOf w s). \<exists>a. processMarkdownFile w f = Inr a
                    \<and> readOutput w' (s @ js ''.ts'') = Some (articleText s a)"
      by simp
  next
    assume "sourcesOf w s \<noteq> []"
    with src have "s \<in> set ss" by simp
    then show "\<exists>as ss. processFiles w (fst (getMarkdownFiles w)) = Inr as
                  \<and> slugStrings as = Some ss
                  \<and> readOutput w' (js ''index.ts'') = Some (indexText ss as)
                  \<and> s \<in> set ss
                  \<and> includesStr (indexText ss as) (importLine s)
                  \<and> includesStr (indexText ss as) (mappingLine s)
                  \<and> (\<exists>a\<in>set as. slug a = Some (Scalar s)
                        \<and> includesStr (indexText ss as) (metaBlock a))"
      by (rule idx)
  next
    assume "sourcesOf w s = [] \<and> s \<noteq> js ''index''"
    with src gone show "readOutput w' (s @ js ''.ts'') = None" by simp
  qed
qed

theorem deleteArticle_recreates_module_witness:
  "readOutput helloSite (js ''hello-world'' @ js ''.ts'') \<noteq> None
   \<and> deleteArticle (js ''hello-world'') helloSite = Done (finalState (deleteArticle (js ''hello-world'') helloSite))
   \<and> sourcesOf helloSite (js ''hello-world'') = [js ''hello-world.md'']
   \<and> contentDir (finalState (deleteArticle (js ''hello-world'') helloSite)) = contentDir helloSite
   \<and> readOutput (finalState (deleteArticle (js ''hello-world'') helloSite)) (js ''hello-world'' @ js ''.ts'') \<noteq> None
   \<and> (\<exists>as ss. readOutput (finalState (deleteArticle (js ''hello-world'') helloSite)) (js ''index.ts'') = Some (indexText ss as)
         \<and> includesStr (indexText ss as) (mappingLine (js ''hello-world'')))"
proof -
  have h1: "readOutput helloSite (js ''hello-world'' @ js ''.ts'') \<noteq> None"
    by code_simp
  have h2: "deleteArticle (js ''hello-world'') helloSite = Done (finalState (deleteArticle (js ''hello-world'') helloSite))"
    by code_simp
  have h3: "sourcesOf helloSite (js ''hello-world'') = [js ''hello-world.md'']"
    by code_simp
  then have ne: "sourcesOf helloSite (js ''hello-world'') \<noteq> []"
    by simp
  from deleteArticle_recreates_module [OF h1 h2] ne
  have c: "contentDir (finalState (deleteArticle (js ''hello-world'') helloSite)) = contentDir helloSite"
    and e: "readOutput (finalState (deleteArticle (js ''hello-world'') helloSite)) (js ''hello-world'' @ js ''.ts'') \<noteq> None"
    and x: "\<exists>as ss. readOutput (finalState (deleteArticle (js ''hello-world'') helloSite)) (js ''index.ts'') = Some (indexText ss as)
         \<and> includesStr (indexText ss as) (mappingLine (js ''hello-world''))"
    by blast+
  from h1 h2 h3 c e x show ?thesis by (intro conjI)
qed

theorem deleteArticle_recreates_module_counterexample:
  "fst (getMarkdownFiles renamedSite) = [js ''foo.md'']
   \<and> map basenameMd (fst (getMarkdownFiles renamedSite)) = [js ''foo'']
   \<and> processMarkdownFile renamedSite (js ''foo.md'') = Inr barArticle
   \<and> readOutput renamedSite (js ''foo'' @ js ''.ts'') = Some (js ''stale'')
   \<and> deleteArticle (js ''foo'') renamedSite = Done (finalState (deleteArticle (js ''foo'') renamedSite))
   \<and> contentDir (finalState (deleteArticle (js ''foo'') renamedSite)) = contentDir renamedSite
   \<and> readOutput (finalState (deleteArticle (js ''foo'') renamedSite)) (js ''foo'' @ js ''.ts'') = None
   \<and> outputDir (finalState (deleteArticle (js ''foo'') renamedSite))
       = Some [(js ''index.ts'', indexText [js ''bar''] [barArticle]),
               (js ''bar.ts'', articleText (js ''bar'') barArticle)]
   \<and> \<not> includesStr (indexText [js ''bar''] [barArticle]) (mappingLine (js ''foo''))"
  by code_simp

subsection \<open>The index after a successful delete\<close>




subsection \<open>Building everything twice\<close>

lemma copyFiles_fields:
  "publicImagesDir w = Some es \<Longrightarrow>
   publicImagesDir (copyFiles imgs w) = Some (applyWrites (imageFiles imgs) es)
   \<and> contentDir (copyFiles imgs w) = contentDir w
   \<and> outputDir (copyFiles imgs w) = outputDir w
   \<and> contentDirPath (copyFiles imgs w) = contentDirPath w"
proof (induction imgs arbitrary: w es)
  case Nil
  then show ?case by (simp add: imageFiles_def)
next
  case (Cons e imgs)
  obtain n x where e: "e = (n, x)" by (cases e)
  show ?case
  proof (cases x)
    case (File c)
    let ?w1 = "log (js ''  Copied: '' @ n) Cyan
       (w\<lparr>publicImagesDir := Some (AList.update n c (entries (publicImagesDir w)))\<rparr>)"
    have p: "publicImagesDir ?w1 = Some (AList.update n c es)"
      using Cons.prems by (simp add: entries_def)
    from Cons.IH [OF p] show ?thesis
      by (simp add: e File imageFiles_def)
  next
    case (Dir d)
    from Cons.IH [OF Cons.prems] show ?thesis
      by (simp add: e Dir imageFiles_def)
  qed
qed

lemma copyImages_Done:
  assumes "imagesOK w"
  shows "\<exists>w'. copyImages w = Done w' \<and> contentDir w' = contentDir w
           \<and> outputDir w' = outputDir w \<and> publicImagesDir w' = publicAfter w"
proof (cases "map_of (entries (contentDir w)) (js ''images'')")
  case None
  then show ?thesis by (simp add: copyImages_def publicAfter_def)
next
  case (Some x)
  show ?thesis
  proof (cases x)
    case (File c)
    with Some assms show ?thesis by (simp add: imagesOK_def)
  next
    case (Dir imgs)
    let ?w' = "if publicImagesDir w = None then w\<lparr>publicImagesDir := Some []\<rparr> else w"
    have p: "publicImagesDir ?w' = Some (entries (publicImagesDir w))"
      by (auto simp: entries_def)
    from copyFiles_fields [OF p, of imgs] show ?thesis
      using Some Dir by (simp add: copyImages_def publicAfter_def Let_def)
  qed
qed

lemma copyImages_Done_D: "copyImages w = Done w' \<Longrightarrow> imagesOK w"
  by (auto simp: copyImages_def imagesOK_def Let_def split: option.splits node.splits)

lemma imagesOK_cong: "contentDir v = contentDir w \<Longrightarrow> imagesOK v = imagesOK w"
  by (simp add: imagesOK_def)

lemma publicAfter_cong:
  "contentDir v = contentDir w \<Longrightarrow> publicImagesDir v = publicImagesDir w \<Longrightarrow>
   publicAfter v = publicAfter w"
  by (simp add: publicAfter_def split: option.splits node.splits)

lemma generateFor_all [simp]:
  "generateFor (js ''all'') files as w = generateTypeScriptFiles as w"
  by (simp add: generateFor_def)

text \<open>The steps of \<open>build\<close> for all articles, when there are markdown files.\<close>

lemma build_all_steps:
  assumes "fst (getMarkdownFiles w) \<noteq> []"
  shows "\<exists>wa. sameFiles wa w
          \<and> build (js ''all'') w
              = (case processFiles w (fst (getMarkdownFiles w)) of
                   Inl e \<Rightarrow> Throw e wa
                 | Inr as \<Rightarrow>
                     (case copyImages (log (js ''Copying images...'') Yellow (logBlank wa)) of
                        Throw e w4 \<Rightarrow> Throw e w4
                      | Done w4 \<Rightarrow>
                          (case generateTypeScriptFiles as
                                  (log (js ''Generating TypeScript files...'') Yellow
                                     (logBlank w4)) of
                             Throw e w5 \<Rightarrow> Throw e w5
                           | Done w5 \<Rightarrow>
                               Done (logBlank
                                 (banner (js ''       Build completed successfully!      '')
                                    Green (logBlank w5))))))"
proof -
  let ?fs = "fst (getMarkdownFiles w)"
  let ?w1 = "logBlank (log (js ''Starting blog build...'') Bright (logBlank w))"
  have f1: "fst (getMarkdownFiles ?w1) = ?fs"
    by (rule getMarkdownFiles_fst) simp
  obtain w2 where g: "getMarkdownFiles ?w1 = (?fs, w2)"
    using f1 by (cases "getMarkdownFiles ?w1") simp
  then have w2: "w2 = snd (getMarkdownFiles ?w1)" by simp
  have s2: "sameFiles w2 w"
    unfolding w2 by (simp add: sameFiles_def)
  let ?w2' = "log (js ''Processing markdown files...'') Yellow w2"
  obtain r w3 where pl: "processLogged ?fs ?w2' = (r, w3)"
    by (cases "processLogged ?fs ?w2'")
  from processLogged_files [of ?fs ?w2'] pl
  have s3: "sameFiles w3 ?w2'" and r: "r = processFiles ?w2' ?fs"
    by simp_all
  have "contentDir ?w2' = contentDir w"
    using s2 by (simp add: sameFiles_def)
  then have "processFiles ?w2' ?fs = processFiles w ?fs"
    by (rule processFiles_cong)
  with r have r': "r = processFiles w ?fs"
    by simp
  have sa: "sameFiles w3 w"
    using s3 s2 by (simp add: sameFiles_def)
  have "build (js ''all'') w
      = (case processFiles w ?fs of
           Inl e \<Rightarrow> Throw e w3
         | Inr as \<Rightarrow>
             (case copyImages (log (js ''Copying images...'') Yellow (logBlank w3)) of
                Throw e w4 \<Rightarrow> Throw e w4
              | Done w4 \<Rightarrow>
                  (case generateTypeScriptFiles as
                          (log (js ''Generating TypeScript files...'') Yellow (logBlank w4)) of
                     Throw e w5 \<Rightarrow> Throw e w5
                   | Done w5 \<Rightarrow>
                       Done (logBlank
                         (banner (js ''       Build completed successfully!      '')
                            Green (logBlank w5))))))"
    using assms
    by (simp add: build_def g Let_def pl r' [symmetric] del: processLogged.simps
        split: sum.splits result.splits)
  with sa show ?thesis by blast
qed

lemma build_all_Done:
  assumes "fst (getMarkdownFiles w) \<noteq> []"
    and "processFiles w (fst (getMarkdownFiles w)) = Inr as"
    and "slugStrings as = Some ss"
    and "imagesOK w"
  shows "\<exists>w'. build (js ''all'') w = Done w'
           \<and> outputDir w' = Some (applyWrites (generatedFiles ss as) (entries (outputDir w)))
           \<and> publicImagesDir w' = publicAfter w
           \<and> contentDir w' = contentDir w"
proof -
  from build_all_steps [OF assms(1)] obtain wa where sa: "sameFiles wa w"
    and b: "build (js ''all'') w
              = (case copyImages (log (js ''Copying images...'') Yellow (logBlank wa)) of
                        Throw e w4 \<Rightarrow> Throw e w4
                      | Done w4 \<Rightarrow>
                          (case generateTypeScriptFiles as
                                  (log (js ''Generating TypeScript files...'') Yellow
                                     (logBlank w4)) of
                             Throw e w5 \<Rightarrow> Throw e w5
                           | Done w5 \<Rightarrow>
                               Done (logBlank
                                 (banner (js ''       Build completed successfully!      '')
                                    Green (logBlank w5)))))"
    using assms(2) by auto
  let ?wc = "log (js ''Copying images...'') Yellow (logBlank wa)"
  have cc: "contentDir ?wc = contentDir w" and pc: "publicImagesDir ?wc = publicImagesDir w"
    and oc: "outputDir ?wc = outputDir w"
    using sa by (simp_all add: sameFiles_def)
  have "imagesOK ?wc"
    using assms(4) imagesOK_cong [OF cc] by simp
  from copyImages_Done [OF this] obtain w4 where w4: "copyImages ?wc = Done w4"
    "contentDir w4 = contentDir ?wc" "outputDir w4 = outputDir ?wc"
    "publicImagesDir w4 = publicAfter ?wc"
    by blast
  have p4: "publicImagesDir w4 = publicAfter w"
    using w4(4) publicAfter_cong [OF cc pc] by simp
  let ?wg = "log (js ''Generating TypeScript files...'') Yellow (logBlank w4)"
  from generate_Done [OF assms(3), of ?wg] obtain w5
    where w5: "generateTypeScriptFiles as ?wg = Done w5"
      "outputDir w5 = Some (applyWrites (generatedFiles ss as) (entries (outputDir ?wg)))"
      "contentDir w5 = contentDir ?wg" "publicImagesDir w5 = publicImagesDir ?wg"
    by blast
  show ?thesis
    using b w4 w5 p4 cc oc by simp
qed

lemma build_all_Done_D:
  assumes "build (js ''all'') w = Done w'" "fst (getMarkdownFiles w) \<noteq> []"
  shows "\<exists>as ss. processFiles w (fst (getMarkdownFiles w)) = Inr as
           \<and> slugStrings as = Some ss \<and> imagesOK w"
proof -
  from build_all_steps [OF assms(2)] obtain wa where sa: "sameFiles wa w"
    and b: "build (js ''all'') w
              = (case processFiles w (fst (getMarkdownFiles w)) of
                   Inl e \<Rightarrow> Throw e wa
                 | Inr as \<Rightarrow>
                     (case copyImages (log (js ''Copying images...'') Yellow (logBlank wa)) of
                        Throw e w4 \<Rightarrow> Throw e w4
                      | Done w4 \<Rightarrow>
                          (case generateTypeScriptFiles as
                                  (log (js ''Generating TypeScript files...'') Yellow
                                     (logBlank w4)) of
                             Throw e w5 \<Rightarrow> Throw e w5
                           | Done w5 \<Rightarrow>
                               Done (logBlank
                                 (banner (js ''       Build completed successfully!      '')
                                    Green (logBlank w5))))))"
    by blast
  let ?wc = "log (js ''Copying images...'') Yellow (logBlank wa)"
  from b assms(1) obtain as w4 w5
    where as: "processFiles w (fst (getMarkdownFiles w)) = Inr as"
      and ci: "copyImages ?wc = Done w4"
      and g: "generateTypeScriptFiles as
                (log (js ''Generating TypeScript files...'') Yellow (logBlank w4)) = Done w5"
    by (auto split: sum.splits result.splits)
  have cc: "contentDir ?wc = contentDir w"
    using sa by (simp add: sameFiles_def)
  from copyImages_Done_D [OF ci] have "imagesOK w"
    using imagesOK_cong [OF cc] by simp
  with as generate_Done_D [OF g] show ?thesis by blast
qed

lemma build_all_no_files:
  assumes "fst (getMarkdownFiles w) = []"
  shows "\<exists>w'. build (js ''all'') w = Done w' \<and> sameFiles w' w"
proof -
  let ?w1 = "logBlank (log (js ''Starting blog build...'') Bright (logBlank w))"
  have f1: "fst (getMarkdownFiles ?w1) = fst (getMarkdownFiles w)"
    by (rule getMarkdownFiles_fst) simp
  obtain w2 where g: "getMarkdownFiles ?w1 = ([], w2)"
    using f1 assms by (cases "getMarkdownFiles ?w1") simp
  then have w2: "w2 = snd (getMarkdownFiles ?w1)" by simp
  have s2: "sameFiles w2 w"
    unfolding w2 by (simp add: sameFiles_def)
  have "build (js ''all'') w = Done (log (js ''No markdown files found!'') Red w2)"
    by (simp add: build_def g Let_def)
  with s2 show ?thesis by simp
qed

lemma publicAfter_idem:
  "contentDir w1 = contentDir w \<Longrightarrow> publicImagesDir w1 = publicAfter w \<Longrightarrow>
   publicAfter w1 = publicAfter w"
  by (simp add: publicAfter_def entries_def applyWrites_idem split: option.splits node.splits)

lemma readOutput_applyWrites:
  "outputDir w' = Some (applyWrites W (entries (outputDir w))) \<Longrightarrow>
   readOutput w' name
     = (case map_of (rev W) name of Some x \<Rightarrow> Some x | None \<Rightarrow> readOutput w name)"
  by (simp add: readOutput_def map_of_applyWrites entries_def split: option.splits)

text \<open>
  Claim C7. When a build of all articles has succeeded, a second build of all articles
  on the directories it left succeeds as well and leaves the output directory (every
  article module and the index) and the public images exactly as they were. What is
  generated depends on the content directory alone: a build on any other state with the
  same content directory succeeds too, and every file of its output directory either
  has the same text as after the first build or was left untouched by both.
\<close>

theorem build_all_twice:
  assumes "build (js ''all'') w = Done w1"
  shows "(\<exists>w2. build (js ''all'') w1 = Done w2 \<and> outputDir w2 = outputDir w1
            \<and> publicImagesDir w2 = publicImagesDir w1 \<and> contentDir w2 = contentDir w1)
       \<and> (\<forall>v. contentDir v = contentDir w \<longrightarrow>
             (\<exists>v1. build (js ''all'') v = Done v1
                \<and> (\<forall>name. readOutput v1 name = readOutput w1 name
                           \<or> (readOutput v1 name = readOutput v name
                               \<and> readOutput w1 name = readOutput w name))))"
proof (cases "fst (getMarkdownFiles w) = []")
  case True
  from build_all_no_files [OF True] assms have s1: "sameFiles w1 w" by auto
  then have c1: "contentDir w1 = contentDir w" by (simp add: sameFiles_def)
  then have "fst (getMarkdownFiles w1) = []"
    using True getMarkdownFiles_fst [of w1 w] by simp
  from build_all_no_files [OF this] obtain w2
    where w2: "build (js ''all'') w1 = Done w2" "sameFiles w2 w1"
    by blast
  then have 1: "\<exists>w2. build (js ''all'') w1 = Done w2 \<and> outputDir w2 = outputDir w1
            \<and> publicImagesDir w2 = publicImagesDir w1 \<and> contentDir w2 = contentDir w1"
    by (auto simp: sameFiles_def)
  have 2: "\<exists>v1. build (js ''all'') v = Done v1
                \<and> (\<forall>name. readOutput v1 name = readOutput w1 name
                           \<or> (readOutput v1 name = readOutput v name
                               \<and> readOutput w1 name = readOutput w name))"
    if "contentDir v = contentDir w" for v
  proof -
    from that True have "fst (getMarkdownFiles v) = []"
      using getMarkdownFiles_fst [of v w] by simp
    from build_all_no_files [OF this] obtain v1
      where v1: "build (js ''all'') v = Done v1" "sameFiles v1 v"
      by blast
    from v1(2) s1 have "readOutput v1 name = readOutput v name
        \<and> readOutput w1 name = readOutput w name" for name
      by (simp add: sameFiles_def readOutput_def)
    with v1(1) show ?thesis by blast
  qed
  from 1 2 show ?thesis by blast
next
  case False
  let ?fs = "fst (getMarkdownFiles w)"
  from build_all_Done_D [OF assms False] obtain as ss
    where as: "processFiles w ?fs = Inr as" and ss: "slugStrings as = Some ss"
      and ok: "imagesOK w"
    by blast
  from build_all_Done [OF False as ss ok] assms
  have o1: "outputDir w1 = Some (applyWrites (generatedFiles ss as) (entries (outputDir w)))"
    and p1: "publicImagesDir w1 = publicAfter w"
    and c1: "contentDir w1 = contentDir w"
    by auto
  have again: "\<exists>v1. build (js ''all'') v = Done v1
           \<and> outputDir v1 = Some (applyWrites (generatedFiles ss as) (entries (outputDir v)))
           \<and> publicImagesDir v1 = publicAfter v
           \<and> contentDir v1 = contentDir v"
    if cv: "contentDir v = contentDir w" for v
  proof -
    have fv: "fst (getMarkdownFiles v) = ?fs"
      using cv by (rule getMarkdownFiles_fst)
    have pv: "processFiles v ?fs = Inr as"
      using as processFiles_cong [OF cv, of ?fs] by simp
    have okv: "imagesOK v"
      using ok imagesOK_cong [OF cv] by simp
    from build_all_Done [of v as ss] fv pv False ss okv show ?thesis by simp
  qed
  from again [OF c1] obtain w2 where w2: "build (js ''all'') w1 = Done w2"
    "outputDir w2 = Some (applyWrites (generatedFiles ss as) (entries (outputDir w1)))"
    "publicImagesDir w2 = publicAfter w1" "contentDir w2 = contentDir w1"
    by blast
  have "outputDir w2 = outputDir w1"
    using w2(2) o1 by (simp add: entries_def applyWrites_idem)
  moreover have "publicImagesDir w2 = publicImagesDir w1"
    using w2(3) p1 publicAfter_idem [OF c1 p1] by simp
  ultimately have 1: "\<exists>w2. build (js ''all'') w1 = Done w2 \<and> outputDir w2 = outputDir w1
            \<and> publicImagesDir w2 = publicImagesDir w1 \<and> contentDir w2 = contentDir w1"
    using w2(1,4) by blast
  have 2: "\<exists>v1. build (js ''all'') v = Done v1
                \<and> (\<forall>name. readOutput v1 name = readOutput w1 name
                           \<or> (readOutput v1 name = readOutput v name
                               \<and> readOutput w1 name = readOutput w name))"
    if cv: "contentDir v = contentDir w" for v
  proof -
    from again [OF cv] obtain v1 where v1: "build (js ''all'') v = Done v1"
      "outputDir v1 = Some (applyWrites (generatedFiles ss as) (entries (outputDir v)))"
      by blast
    have "readOutput v1 name = readOutput w1 name
          \<or> (readOutput v1 name = readOutput v name \<and> readOutput w1 name = readOutput w name)"
      for name
      using readOutput_applyWrites [OF v1(2), of name] readOutput_applyWrites [OF o1, of name]
      by (cases "map_of (rev (generatedFiles ss as)) name") simp_all
    with v1(1) show ?thesis by blast
  qed
  from 1 2 show ?thesis by blast
qed

theorem build_all_twice_witness:
  "build (js ''all'') helloSite = Done (finalState (build (js ''all'') helloSite))
   \<and> (\<exists>w2. build (js ''all'') (finalState (build (js ''all'') helloSite)) = Done w2
         \<and> outputDir w2 = outputDir (finalState (build (js ''all'') helloSite))
         \<and> publicImagesDir w2 = publicImagesDir (finalState (build (js ''all'') helloSite)))
   \<and> readOutput (finalState (build (js ''all'') helloSite)) (js ''hello-world.ts'')
       = Some (articleText (js ''hello-world'') helloArticle)"
proof -
  have h: "build (js ''all'') helloSite = Done (finalState (build (js ''all'') helloSite))"
    by code_simp
  have e: "readOutput (finalState (build (js ''all'') helloSite)) (js ''hello-world.ts'')
       = Some (articleText (js ''hello-world'') helloArticle)"
    by code_simp
  from build_all_twice [OF h] h e show ?thesis by blast
qed

end
